theory Spec2Isabelle
  imports Main
begin

section \<open>Dates: the calendar-arithmetic collaborator\<close>

text \<open>
  Modelled from the spec: the date library (\<^verbatim>\<open>@internationalized/date\<close>) is imported by
  \<^verbatim>\<open>useRangeCalendarState.ts\<close> but is not among the sources. The spec (section 3) describes a
  date value as "a date in a specific calendar system, optionally carrying a time-of-day
  component", comparable, and convertible between calendar systems without loss. A calendar
  date is therefore its calendar system together with its position on the day axis all
  calendar systems share; converting to another system keeps the day and changes the system.
\<close>

datatype Calendar = GregorianCalendar | OtherCalendar string

record CalendarDate =
  calendar :: Calendar
  day :: int

text \<open>
  Modelled from the spec: a \<^verbatim>\<open>DateValue\<close> is a calendar date that may carry a time of day
  (here in milliseconds since midnight); \<open>time = None\<close> is a pure date.
\<close>

record DateValue =
  date :: CalendarDate
  time :: "nat option"

text \<open>A \<^verbatim>\<open>CalendarDate\<close> used where the source expects a \<^verbatim>\<open>DateValue\<close>.\<close>

definition ofCalendarDate :: "CalendarDate \<Rightarrow> DateValue" where
  "ofCalendarDate d = \<lparr>date = d, time = None\<rparr>"

text \<open>Modelled from the spec: \<^verbatim>\<open>toCalendarDate\<close> drops the time of day.\<close>

definition toCalendarDate :: "DateValue \<Rightarrow> CalendarDate" where
  "toCalendarDate v = date v"

text \<open>Modelled from the spec: \<^verbatim>\<open>toCalendar\<close>, the cross-calendar conversion.\<close>

definition toCalendar :: "CalendarDate \<Rightarrow> Calendar \<Rightarrow> CalendarDate" where
  "toCalendar d c = d\<lparr>calendar := c\<rparr>"

text \<open>Modelled from the spec: \<^verbatim>\<open>d.add({days: n})\<close>; \<^verbatim>\<open>subtract\<close> is \<open>add\<close> of the negation.\<close>

definition add_days :: "CalendarDate \<Rightarrow> int \<Rightarrow> CalendarDate" where
  "add_days d n = d\<lparr>day := day d + n\<rparr>"

text \<open>
  Modelled from the spec: date comparison, the \<^verbatim>\<open>compare\<close> method of a pure calendar date:
  negative when the receiver is the earlier day, positive when it is the later one.
\<close>

definition compareDate :: "CalendarDate \<Rightarrow> CalendarDate \<Rightarrow> int" where
  "compareDate a b = day a - day b"

text \<open>
  Modelled from the spec: date comparison, the \<^verbatim>\<open>compare\<close> method of a date value. The days
  decide; a receiver that carries a time of day breaks a tie of the days by the times, a
  missing time counting as midnight.
\<close>

definition compare :: "DateValue \<Rightarrow> DateValue \<Rightarrow> int" where
  "compare a b =
     (case time a of
        None \<Rightarrow> compareDate (date a) (date b)
      | Some ta \<Rightarrow>
          (let res = compareDate (date a) (date b)
           in if res = 0 then int ta - (case time b of None \<Rightarrow> 0 | Some tb \<Rightarrow> int tb)
              else res))"

text \<open>Modelled from the spec: \<^verbatim>\<open>isEqualDay\<close>, the "is equal day" comparison.\<close>

definition isEqualDay :: "CalendarDate \<Rightarrow> CalendarDate \<Rightarrow> bool" where
  "isEqualDay a b = (day a = day b)"

text \<open>
  Modelled from the spec: \<^verbatim>\<open>old.set(fields)\<close> on a value with a time of day replaces the date
  portion and keeps the time ("only the date portion changes").
\<close>

definition set_fields :: "DateValue \<Rightarrow> CalendarDate \<Rightarrow> DateValue" where
  "set_fields old newDate = old\<lparr>date := newDate\<rparr>"

text \<open>
  Modelled from the spec: \<^verbatim>\<open>maxDate\<close>, the later of two optional dates, "missing bound
  \<Rightarrow> identity for that side".
\<close>

definition maxDate :: "DateValue option \<Rightarrow> DateValue option \<Rightarrow> DateValue option" where
  "maxDate a b =
     (case (a, b) of
        (Some x, Some y) \<Rightarrow> Some (if compare x y \<ge> 0 then x else y)
      | (Some x, None) \<Rightarrow> Some x
      | (None, y) \<Rightarrow> y)"

text \<open>
  Modelled from the spec: \<^verbatim>\<open>minDate\<close>, the earlier of two optional dates, a missing one
  being the identity.
\<close>

definition minDate :: "DateValue option \<Rightarrow> DateValue option \<Rightarrow> DateValue option" where
  "minDate a b =
     (case (a, b) of
        (Some x, Some y) \<Rightarrow> Some (if compare x y \<le> 0 then x else y)
      | (Some x, None) \<Rightarrow> Some x
      | (None, y) \<Rightarrow> y)"

section \<open>Ranges and the calendar grid state\<close>

text \<open>\<^verbatim>\<open>RangeValue<T>\<close>: the field \<^verbatim>\<open>end\<close> is written \<open>end'\<close>.\<close>

record 'a RangeValue =
  start :: 'a
  end' :: 'a

text \<open>
  The part of \<^verbatim>\<open>CalendarState\<close> (the result of \<^verbatim>\<open>useCalendarState\<close>, which is not among the
  sources) that the range state reads: it is a parameter of every operation.
\<close>

record CalendarState =
  visibleRange :: "CalendarDate RangeValue"
  focusedDate :: CalendarDate
  isCellUnavailable :: "CalendarDate \<Rightarrow> bool"
  isCellDisabled :: "CalendarDate \<Rightarrow> bool"
  calendar_isInvalid :: "CalendarDate \<Rightarrow> bool"

datatype error = TypeError | Diverges

section \<open>The directional scan\<close>

text \<open>
  The loop condition of \<^verbatim>\<open>nextUnavailableDate\<close>: the date has not passed the edge of the
  visible range that lies in the direction of travel.
\<close>

definition inVisibleRange :: "CalendarState \<Rightarrow> int \<Rightarrow> CalendarDate \<Rightarrow> bool" where
  "inVisibleRange state dir nextDate =
     (if dir < 0 then compareDate nextDate (start (visibleRange state)) \<ge> 0
      else compareDate nextDate (end' (visibleRange state)) \<le> 0)"

text \<open>
  The \<^verbatim>\<open>while\<close> loop of \<^verbatim>\<open>nextUnavailableDate\<close>; it returns the date at which the loop
  exits, and \<open>None\<close> when the loop runs forever (which \<open>dir = 0\<close> allows).
\<close>

partial_function (option) nextUnavailableDate_loop ::
  "CalendarState \<Rightarrow> int \<Rightarrow> CalendarDate \<Rightarrow> CalendarDate option" where
  "nextUnavailableDate_loop state dir nextDate =
     (if inVisibleRange state dir nextDate \<and> \<not> isCellUnavailable state nextDate
      then nextUnavailableDate_loop state dir (add_days nextDate dir)
      else Some nextDate)"

declare nextUnavailableDate_loop.simps [code]

definition nextUnavailableDate ::
  "CalendarDate \<Rightarrow> CalendarState \<Rightarrow> int \<Rightarrow> error + CalendarDate option" where
  "nextUnavailableDate anchorDate state dir =
     (case nextUnavailableDate_loop state dir (add_days anchorDate dir) of
        None \<Rightarrow> Inl Diverges
      | Some nextDate \<Rightarrow>
          if isCellUnavailable state nextDate then Inr (Some (add_days nextDate (- dir)))
          else Inr None)"

section \<open>Helpers of the calendar utilities\<close>

text \<open>
  Modelled from the spec: \<^verbatim>\<open>isInvalid\<close> of \<^verbatim>\<open>./utils\<close> is not among the sources. A date
  "falls outside" bounds when it lies before the lower or after the upper one, a bound that
  is missing constraining nothing.
\<close>

definition isInvalid :: "DateValue \<Rightarrow> DateValue option \<Rightarrow> DateValue option \<Rightarrow> bool" where
  "isInvalid d minValue maxValue =
     ((case minValue of None \<Rightarrow> False | Some m \<Rightarrow> compare d m < 0) \<or>
      (case maxValue of None \<Rightarrow> False | Some m \<Rightarrow> compare d m > 0))"

text \<open>
  Modelled from the spec: \<^verbatim>\<open>constrainValue\<close> of \<^verbatim>\<open>./utils\<close> is not among the sources. It
  clamps the candidate into the bounds, "missing bound \<Rightarrow> identity for that side": first
  raised to the lower bound, then lowered to the upper one, both taken as pure dates.
\<close>

definition constrainValue ::
  "CalendarDate \<Rightarrow> DateValue option \<Rightarrow> DateValue option \<Rightarrow> CalendarDate" where
  "constrainValue d minValue maxValue =
     (let d1 = (case minValue of
                  None \<Rightarrow> d
                | Some m \<Rightarrow> if compareDate d (toCalendarDate m) \<ge> 0 then d else toCalendarDate m)
      in case maxValue of
           None \<Rightarrow> d1
         | Some m \<Rightarrow> if compareDate d1 (toCalendarDate m) \<le> 0 then d1 else toCalendarDate m)"

text \<open>
  Modelled from the spec: the loop of \<^verbatim>\<open>previousAvailableDate\<close> of \<^verbatim>\<open>./utils\<close>, which is not
  among the sources: "if the clamped candidate is unavailable, move it toward the start of
  the visible window, date by date, until an available date is found or the window start is
  passed". The day falls at every turn, so the loop ends.
\<close>

function previousAvailableDate_loop ::
  "CalendarDate \<Rightarrow> CalendarDate \<Rightarrow> (CalendarDate \<Rightarrow> bool) \<Rightarrow> CalendarDate" where
  "previousAvailableDate_loop d minValue unavailable =
     (if compareDate d minValue \<ge> 0 \<and> unavailable d
      then previousAvailableDate_loop (add_days d (- 1)) minValue unavailable
      else d)"
  by pat_completeness auto
termination
  by (relation "measure (\<lambda>(d, minValue, unavailable). nat (day d - day minValue + 1))")
     (auto simp: compareDate_def add_days_def)

declare previousAvailableDate_loop.simps [simp del]

text \<open>
  Modelled from the spec: \<^verbatim>\<open>previousAvailableDate\<close> of \<^verbatim>\<open>./utils\<close>, which is not among the
  sources. Without a predicate the candidate is returned as it is; otherwise the date the
  loop stops at is returned, or nothing when it lies before the start of the visible window
  ("if none found, abort").
\<close>

definition previousAvailableDate ::
  "CalendarDate \<Rightarrow> CalendarDate \<Rightarrow> (DateValue \<Rightarrow> bool) option \<Rightarrow> CalendarDate option" where
  "previousAvailableDate d minValue isDateUnavailable =
     (case isDateUnavailable of
        None \<Rightarrow> Some d
      | Some unavailable \<Rightarrow>
          (let d' = previousAvailableDate_loop d minValue (\<lambda>c. unavailable (ofCalendarDate c))
           in if compareDate d' minValue \<ge> 0 then Some d' else None))"

section \<open>The range calendar state\<close>

datatype ValidationState = valid | invalid

text \<open>The options of \<^verbatim>\<open>useRangeCalendarState\<close> that the selection logic reads.\<close>

record RangeCalendarProps =
  minValue :: "DateValue option"
  maxValue :: "DateValue option"
  isDateUnavailable :: "(DateValue \<Rightarrow> bool) option"
  allowsNonContiguousRanges :: bool
  isReadOnly :: bool
  validationState_prop :: "ValidationState option"

text \<open>
  What the hook holds between renders: the committed value (the source's \<^verbatim>\<open>value\<close>), the
  anchor, the available range as a ref and as state, the visible range seen by the last
  render, and the drag flag. The endpoints of the available range are the calendar dates
  \<^verbatim>\<open>nextUnavailableDate\<close> returns, \<open>None\<close> for \<^verbatim>\<open>null\<close>.
\<close>

record RangeCalendarState =
  value' :: "DateValue RangeValue option"
  anchorDate :: "CalendarDate option"
  availableRangeRef :: "CalendarDate option RangeValue option"
  availableRange :: "CalendarDate option RangeValue option"
  lastVisibleRange :: "CalendarDate RangeValue"
  isDragging :: bool

definition initialState ::
  "DateValue RangeValue option \<Rightarrow> CalendarState \<Rightarrow> RangeCalendarState" where
  "initialState v cal =
     \<lparr>value' = v, anchorDate = None, availableRangeRef = None, availableRange = None,
      lastVisibleRange = visibleRange cal, isDragging = False\<rparr>"

text \<open>
  Modelled from the spec: the Controlled Value Store (\<^verbatim>\<open>useControlledState\<close> is not among the
  sources) "holds the committed range value"; \<^verbatim>\<open>setValue\<close> replaces it.
\<close>

definition setValue :: "DateValue RangeValue \<Rightarrow> RangeCalendarState \<Rightarrow> RangeCalendarState" where
  "setValue v s = s\<lparr>value' := Some v\<rparr>"

definition setDragging :: "bool \<Rightarrow> RangeCalendarState \<Rightarrow> RangeCalendarState" where
  "setDragging b s = s\<lparr>isDragging := b\<rparr>"

subsection \<open>Window alignment (lines 58 to 66)\<close>

datatype Alignment = Center | Start

text \<open>
  \<^verbatim>\<open>alignCenter\<close> of \<^verbatim>\<open>./utils\<close> and the addition of a duration to a date are not among the
  sources: they are the parameters \<open>alignCenter\<close> and \<open>add\<close>.
\<close>

definition alignment ::
  "(CalendarDate \<Rightarrow> 'dur \<Rightarrow> string \<Rightarrow> DateValue option \<Rightarrow> DateValue option \<Rightarrow> CalendarDate) \<Rightarrow>
   (CalendarDate \<Rightarrow> 'dur \<Rightarrow> CalendarDate) \<Rightarrow>
   'dur \<Rightarrow> string \<Rightarrow> RangeCalendarProps \<Rightarrow> DateValue RangeValue option \<Rightarrow> Alignment" where
  "alignment alignCenter add visibleDuration locale props v =
     (case v of
        None \<Rightarrow> Center
      | Some r \<Rightarrow>
          (let start1 = alignCenter (toCalendarDate (start r)) visibleDuration locale
                          (minValue props) (maxValue props);
               end1 = add_days (add start1 visibleDuration) (- 1)
           in if compare (end' r) (ofCalendarDate end1) > 0 then Start else Center))"

subsection \<open>Effective bounds (lines 71 and 72)\<close>

definition min_effective :: "RangeCalendarProps \<Rightarrow> RangeCalendarState \<Rightarrow> DateValue option" where
  "min_effective props s =
     maxDate (minValue props)
       (case availableRange s of None \<Rightarrow> None | Some r \<Rightarrow> map_option ofCalendarDate (start r))"

definition max_effective :: "RangeCalendarProps \<Rightarrow> RangeCalendarState \<Rightarrow> DateValue option" where
  "max_effective props s =
     minDate (maxValue props)
       (case availableRange s of None \<Rightarrow> None | Some r \<Rightarrow> map_option ofCalendarDate (end' r))"

subsection \<open>Available range and anchor\<close>

definition updateAvailableRange ::
  "RangeCalendarProps \<Rightarrow> CalendarState \<Rightarrow> CalendarDate option \<Rightarrow> RangeCalendarState \<Rightarrow>
   error + RangeCalendarState" where
  "updateAvailableRange props cal d s =
     (case d of
        None \<Rightarrow> Inr (s\<lparr>availableRangeRef := None, availableRange := None\<rparr>)
      | Some anchor \<Rightarrow>
          if isDateUnavailable props \<noteq> None \<and> \<not> allowsNonContiguousRanges props
          then (case nextUnavailableDate anchor cal (- 1) of
                  Inl e \<Rightarrow> Inl e
                | Inr lo \<Rightarrow>
                    (case nextUnavailableDate anchor cal 1 of
                       Inl e \<Rightarrow> Inl e
                     | Inr hi \<Rightarrow>
                         Inr (s\<lparr>availableRangeRef := Some \<lparr>start = lo, end' = hi\<rparr>,
                                availableRange := Some \<lparr>start = lo, end' = hi\<rparr>\<rparr>)))
          else Inr (s\<lparr>availableRangeRef := None, availableRange := None\<rparr>))"

text \<open>
  Lines 98 to 103, run by every render: when the visible range is not the one the last
  render saw, the available range is recomputed around the current anchor.
\<close>

definition render ::
  "RangeCalendarProps \<Rightarrow> CalendarState \<Rightarrow> RangeCalendarState \<Rightarrow> error + RangeCalendarState" where
  "render props cal s =
     (if \<not> isEqualDay (start (visibleRange cal)) (start (lastVisibleRange s)) \<or>
         \<not> isEqualDay (end' (visibleRange cal)) (end' (lastVisibleRange s))
      then (case updateAvailableRange props cal (anchorDate s) s of
              Inl e \<Rightarrow> Inl e
            | Inr s' \<Rightarrow> Inr (s'\<lparr>lastVisibleRange := visibleRange cal\<rparr>))
      else Inr s)"

definition setAnchorDate ::
  "RangeCalendarProps \<Rightarrow> CalendarState \<Rightarrow> CalendarDate option \<Rightarrow> RangeCalendarState \<Rightarrow>
   error + RangeCalendarState" where
  "setAnchorDate props cal d s =
     (case d of
        Some anchor \<Rightarrow> updateAvailableRange props cal (Some anchor) (s\<lparr>anchorDate := Some anchor\<rparr>)
      | None \<Rightarrow> updateAvailableRange props cal None (s\<lparr>anchorDate := None\<rparr>))"

subsection \<open>Ranges and value conversion\<close>

definition makeRange ::
  "DateValue option \<Rightarrow> DateValue option \<Rightarrow> CalendarDate RangeValue option" where
  "makeRange start0 end0 =
     (case (start0, end0) of
        (Some s, Some e) \<Rightarrow>
          if compare e s < 0
          then Some \<lparr>start = toCalendarDate e, end' = toCalendarDate s\<rparr>
          else Some \<lparr>start = toCalendarDate s, end' = toCalendarDate e\<rparr>
      | _ \<Rightarrow> None)"

definition convertValue :: "CalendarDate \<Rightarrow> DateValue option \<Rightarrow> DateValue" where
  "convertValue newValue oldValue =
     (let newValue' = toCalendar newValue
                        (case oldValue of
                           None \<Rightarrow> GregorianCalendar
                         | Some old \<Rightarrow> calendar (date old))
      in case oldValue of
           None \<Rightarrow> ofCalendarDate newValue'
         | Some old \<Rightarrow>
             if time old \<noteq> None then set_fields old newValue' else ofCalendarDate newValue')"

definition highlightedRange ::
  "CalendarState \<Rightarrow> RangeCalendarState \<Rightarrow> CalendarDate RangeValue option" where
  "highlightedRange cal s =
     (case anchorDate s of
        Some anchor \<Rightarrow>
          makeRange (Some (ofCalendarDate anchor)) (Some (ofCalendarDate (focusedDate cal)))
      | None \<Rightarrow>
          (case value' s of
             None \<Rightarrow> None
           | Some v \<Rightarrow> makeRange (Some (start v)) (Some (end' v))))"

subsection \<open>Picking a date\<close>

definition selectDate ::
  "RangeCalendarProps \<Rightarrow> CalendarState \<Rightarrow> CalendarDate \<Rightarrow> RangeCalendarState \<Rightarrow>
   error + RangeCalendarState" where
  "selectDate props cal d s =
     (if isReadOnly props then Inr s
      else
        (let d1 = constrainValue d (min_effective props s) (max_effective props s)
         in case previousAvailableDate d1 (start (visibleRange cal))
                   (isDateUnavailable props) of
              None \<Rightarrow> Inr s
            | Some d2 \<Rightarrow>
                (case anchorDate s of
                   None \<Rightarrow> setAnchorDate props cal (Some d2) s
                 | Some anchor \<Rightarrow>
                     (case makeRange (Some (ofCalendarDate anchor)) (Some (ofCalendarDate d2)) of
                        None \<Rightarrow> Inl TypeError
                      | Some rng \<Rightarrow>
                          setAnchorDate props cal None
                            (setValue
                               \<lparr>start = convertValue (start rng) (map_option start (value' s)),
                                end' = convertValue (end' rng) (map_option end' (value' s))\<rparr>
                               s)))))"

definition selectFocusedDate ::
  "RangeCalendarProps \<Rightarrow> CalendarState \<Rightarrow> RangeCalendarState \<Rightarrow> error + RangeCalendarState" where
  "selectFocusedDate props cal s = selectDate props cal (focusedDate cal) s"

subsection \<open>Validation and the per-cell queries\<close>

definition isInvalidSelection :: "RangeCalendarProps \<Rightarrow> RangeCalendarState \<Rightarrow> bool" where
  "isInvalidSelection props s =
     (case value' s of
        None \<Rightarrow> False
      | Some v \<Rightarrow>
          if anchorDate s \<noteq> None then False
          else if (case isDateUnavailable props of
                     None \<Rightarrow> False
                   | Some unavailable \<Rightarrow> unavailable (start v) \<or> unavailable (end' v))
          then True
          else isInvalid (start v) (minValue props) (maxValue props) \<or>
               isInvalid (end' v) (minValue props) (maxValue props))"

definition validationState ::
  "RangeCalendarProps \<Rightarrow> RangeCalendarState \<Rightarrow> ValidationState option" where
  "validationState props s =
     (case validationState_prop props of
        Some v \<Rightarrow> Some v
      | None \<Rightarrow> if isInvalidSelection props s then Some invalid else None)"

definition isSelected :: "CalendarState \<Rightarrow> RangeCalendarState \<Rightarrow> CalendarDate \<Rightarrow> bool" where
  "isSelected cal s d =
     (case highlightedRange cal s of
        None \<Rightarrow> False
      | Some r \<Rightarrow>
          compareDate d (start r) \<ge> 0 \<and> compareDate d (end' r) \<le> 0 \<and>
          \<not> isCellDisabled cal d \<and> \<not> isCellUnavailable cal d)"

definition state_isInvalid :: "CalendarState \<Rightarrow> RangeCalendarState \<Rightarrow> CalendarDate \<Rightarrow> bool" where
  "state_isInvalid cal s d =
     (calendar_isInvalid cal d \<or>
      isInvalid (ofCalendarDate d)
        (case availableRangeRef s of None \<Rightarrow> None | Some r \<Rightarrow> map_option ofCalendarDate (start r))
        (case availableRangeRef s of None \<Rightarrow> None | Some r \<Rightarrow> map_option ofCalendarDate (end' r)))"

section \<open>Events and runs\<close>

definition andThen :: "error + 'a \<Rightarrow> ('a \<Rightarrow> error + 'b) \<Rightarrow> error + 'b" where
  "andThen r f = (case r of Inl e \<Rightarrow> Inl e | Inr x \<Rightarrow> f x)"

text \<open>
  The operations the hook exposes that change its state. A handler is a closure of the latest
  render, so an event is processed by the render for the current calendar grid state
  followed by the handler.
\<close>

datatype event =
    SelectDate CalendarDate
  | SelectFocusedDate
  | SetAnchorDate "CalendarDate option"
  | SetValue "DateValue RangeValue"
  | SetDragging bool

definition handle ::
  "RangeCalendarProps \<Rightarrow> CalendarState \<Rightarrow> event \<Rightarrow> RangeCalendarState \<Rightarrow>
   error + RangeCalendarState" where
  "handle props cal ev s =
     (case ev of
        SelectDate d \<Rightarrow> selectDate props cal d s
      | SelectFocusedDate \<Rightarrow> selectFocusedDate props cal s
      | SetAnchorDate d \<Rightarrow> setAnchorDate props cal d s
      | SetValue v \<Rightarrow> Inr (setValue v s)
      | SetDragging b \<Rightarrow> Inr (setDragging b s))"

definition step ::
  "RangeCalendarProps \<Rightarrow> CalendarState \<Rightarrow> event \<Rightarrow> RangeCalendarState \<Rightarrow>
   error + RangeCalendarState" where
  "step props cal ev s = andThen (render props cal s) (handle props cal ev)"

fun run ::
  "RangeCalendarProps \<Rightarrow> (CalendarState \<times> event) list \<Rightarrow> RangeCalendarState \<Rightarrow>
   error + RangeCalendarState" where
  "run props [] s = Inr s"
| "run props ((cal, ev) # evs) s = andThen (step props cal ev s) (run props evs)"

section \<open>Notions used in the statements\<close>

text \<open>
  The invariant of the stored available range: state and ref are both absent unless an
  anchor is set, a predicate is supplied and contiguity is enforced.
\<close>

definition availableRange_inv :: "RangeCalendarProps \<Rightarrow> RangeCalendarState \<Rightarrow> bool" where
  "availableRange_inv props s =
     (availableRange s \<noteq> None \<or> availableRangeRef s \<noteq> None \<longrightarrow>
        anchorDate s \<noteq> None \<and> isDateUnavailable props \<noteq> None \<and>
        \<not> allowsNonContiguousRanges props)"

text \<open>
  The two-sided test that a date lies in the visible range, by days: not before its start
  and not after its end.
\<close>

definition withinVisibleRange :: "CalendarState \<Rightarrow> CalendarDate \<Rightarrow> bool" where
  "withinVisibleRange state d =
     (day (start (visibleRange state)) \<le> day d \<and> day d \<le> day (end' (visibleRange state)))"

text \<open>Whether the caller's predicate, when supplied, marks the date unavailable.\<close>

definition marksUnavailable :: "RangeCalendarProps \<Rightarrow> DateValue \<Rightarrow> bool" where
  "marksUnavailable props d =
     (case isDateUnavailable props of None \<Rightarrow> False | Some unavailable \<Rightarrow> unavailable d)"

text \<open>
  The candidate of a pick after the clamp of line 121, and the state a commit of the range
  between the anchor \<open>a\<close> and the effective candidate \<open>m\<close> leaves (lines 130 to 135).
\<close>

definition clampedCandidate ::
  "RangeCalendarProps \<Rightarrow> RangeCalendarState \<Rightarrow> CalendarDate \<Rightarrow> CalendarDate" where
  "clampedCandidate props s d = constrainValue d (min_effective props s) (max_effective props s)"

definition committed ::
  "CalendarDate \<Rightarrow> CalendarDate \<Rightarrow> RangeCalendarState \<Rightarrow> RangeCalendarState" where
  "committed a m s =
     s\<lparr>value' := Some \<lparr>start = convertValue (if day m < day a then m else a)
                                  (map_option start (value' s)),
                        end' = convertValue (if day m < day a then a else m)
                                  (map_option end' (value' s))\<rparr>,
       anchorDate := None, availableRangeRef := None, availableRange := None\<rparr>"

text \<open>
  The normalized range of two picks in the spec's words: ordered, "swap if candidate <
  anchor". \<^verbatim>\<open>makeRange\<close> is the source's function.
\<close>

definition normalized :: "CalendarDate \<Rightarrow> CalendarDate \<Rightarrow> CalendarDate RangeValue" where
  "normalized a b = (if day b < day a then \<lparr>start = b, end' = a\<rparr> else \<lparr>start = a, end' = b\<rparr>)"

text \<open>
  The value a commit of the normalized range emits, each endpoint converted against the
  corresponding endpoint of the prior value.
\<close>

definition emitted ::
  "CalendarDate RangeValue \<Rightarrow> DateValue RangeValue option \<Rightarrow> DateValue RangeValue" where
  "emitted r old =
     \<lparr>start = convertValue (start r) (map_option start old),
      end' = convertValue (end' r) (map_option end' old)\<rparr>"






text \<open>
  Modelled from the spec: the grid's own per-cell invalid check. Lines 74 to 83 hand the
  effective bounds of the render to \<^verbatim>\<open>useCalendarState\<close> (not among the sources) as its
  \<^verbatim>\<open>minValue\<close> and \<^verbatim>\<open>maxValue\<close>, and the check of the grid it returns flags the dates
  that fall outside the bounds it was given. \<open>renderedGrid props s grid\<close> is \<open>grid\<close> with the
  check that the render of the state \<open>s\<close> gives it.
\<close>

definition renderedGrid ::
  "RangeCalendarProps \<Rightarrow> RangeCalendarState \<Rightarrow> CalendarState \<Rightarrow> CalendarState" where
  "renderedGrid props s grid =
     grid\<lparr>calendar_isInvalid :=
            (\<lambda>d. isInvalid (ofCalendarDate d) (min_effective props s) (max_effective props s))\<rparr>"

section \<open>Example configurations\<close>

definition greg :: "int \<Rightarrow> CalendarDate" where
  "greg n = \<lparr>calendar = GregorianCalendar, day = n\<rparr>"

text \<open>A grid showing days 1 to 31, whose unavailable cells are the listed days.\<close>

definition month :: "int list \<Rightarrow> CalendarState" where
  "month unavailable =
     \<lparr>visibleRange = \<lparr>start = greg 1, end' = greg 31\<rparr>, focusedDate = greg 1,
      isCellUnavailable = (\<lambda>d. day d \<in> set unavailable),
      isCellDisabled = (\<lambda>d. False), calendar_isInvalid = (\<lambda>d. False)\<rparr>"

definition exampleProps ::
  "int option \<Rightarrow> int option \<Rightarrow> int list option \<Rightarrow> bool \<Rightarrow> bool \<Rightarrow> RangeCalendarProps" where
  "exampleProps lo hi unavailable nonContiguous readOnly =
     \<lparr>minValue = map_option (\<lambda>n. ofCalendarDate (greg n)) lo,
      maxValue = map_option (\<lambda>n. ofCalendarDate (greg n)) hi,
      isDateUnavailable = map_option (\<lambda>xs v. day (date v) \<in> set xs) unavailable,
      allowsNonContiguousRanges = nonContiguous, isReadOnly = readOnly,
      validationState_prop = None\<rparr>"

definition dayRange :: "int \<Rightarrow> int \<Rightarrow> DateValue RangeValue" where
  "dayRange a b = \<lparr>start = ofCalendarDate (greg a), end' = ofCalendarDate (greg b)\<rparr>"

text \<open>
  A committed value whose start is 09:00 on day 1 in another calendar system and whose end is
  the pure Gregorian date of day 5.
\<close>

definition timedValue :: "DateValue RangeValue" where
  "timedValue =
     \<lparr>start = \<lparr>date = \<lparr>calendar = OtherCalendar ''hebrew'', day = 1\<rparr>, time = Some 32400000\<rparr>,
      end' = ofCalendarDate (greg 5)\<rparr>"

definition anchored :: "int \<Rightarrow> RangeCalendarState \<Rightarrow> RangeCalendarState" where
  "anchored n s = s\<lparr>anchorDate := Some (greg n)\<rparr>"

text \<open>The options of \<open>exampleProps\<close> with the caller's explicit validation flag set.\<close>

definition flagged :: "ValidationState \<Rightarrow> RangeCalendarProps \<Rightarrow> RangeCalendarProps" where
  "flagged f props = props\<lparr>validationState_prop := Some f\<rparr>"

text \<open>
  The second scenario of the spec: day 15 is unavailable, no bounds, contiguity enforced; and
  the state after the first pick of day 10, whose available range ends at day 14.
\<close>

definition scenarioB :: RangeCalendarProps where
  "scenarioB = exampleProps None None (Some [15]) False False"

definition scenarioB_anchored :: RangeCalendarState where
  "scenarioB_anchored =
     \<lparr>value' = None, anchorDate = Some (greg 10),
      availableRangeRef = Some \<lparr>start = None, end' = Some (greg 14)\<rparr>,
      availableRange = Some \<lparr>start = None, end' = Some (greg 14)\<rparr>,
      lastVisibleRange = \<lparr>start = greg 1, end' = greg 31\<rparr>, isDragging = False\<rparr>"




text \<open>The options of the second scenario after the caller allows non-contiguous ranges.\<close>

definition nonContiguousB :: RangeCalendarProps where
  "nonContiguousB = exampleProps None None (Some [15]) True False"

section \<open>Facts about dates\<close>

lemma add_days_add_days: "add_days (add_days d m) n = add_days d (m + n)"
  by (simp add: add_days_def)

lemma add_days_0: "add_days d 0 = d"
  by (simp add: add_days_def)

lemma day_add_days: "day (add_days d n) = day d + n"
  by (simp add: add_days_def)

lemma compare_ofCalendarDate: "compare (ofCalendarDate a) b = day a - day (date b)"
  by (simp add: compare_def ofCalendarDate_def compareDate_def)

section \<open>The directional scan returns\<close>

lemma nextUnavailableDate_loop_stops:
  assumes dir: "dir \<noteq> 0"
  shows "\<exists>k\<ge>0. nextUnavailableDate_loop st dir d = Some (add_days d (dir * k)) \<and>
           (\<forall>j. 0 \<le> j \<and> j < k \<longrightarrow>
                inVisibleRange st dir (add_days d (dir * j)) \<and>
                \<not> isCellUnavailable st (add_days d (dir * j))) \<and>
           \<not> (inVisibleRange st dir (add_days d (dir * k)) \<and>
              \<not> isCellUnavailable st (add_days d (dir * k)))"
proof (induction "if dir < 0 then nat (day d - day (start (visibleRange st)) + 1)
                  else nat (day (end' (visibleRange st)) - day d + 1)"
       arbitrary: d rule: less_induct)
  case less
  let ?P = "\<lambda>x. inVisibleRange st dir x \<and> \<not> isCellUnavailable st x"
  show ?case
  proof (cases "?P d")
    case False
    then have "nextUnavailableDate_loop st dir d = Some d"
      by (subst nextUnavailableDate_loop.simps) auto
    with False show ?thesis
      by (intro exI[of _ 0]) (auto simp: add_days_0)
  next
    case True
    then have unfold:
      "nextUnavailableDate_loop st dir d = nextUnavailableDate_loop st dir (add_days d dir)"
      by (subst nextUnavailableDate_loop.simps) auto
    from True dir have decr:
      "(if dir < 0 then nat (day (add_days d dir) - day (start (visibleRange st)) + 1)
        else nat (day (end' (visibleRange st)) - day (add_days d dir) + 1))
       < (if dir < 0 then nat (day d - day (start (visibleRange st)) + 1)
          else nat (day (end' (visibleRange st)) - day d + 1))"
      by (auto simp: inVisibleRange_def compareDate_def day_add_days)
    from less[OF decr] obtain k where k: "k \<ge> 0"
      and res: "nextUnavailableDate_loop st dir (add_days d dir) =
                Some (add_days (add_days d dir) (dir * k))"
      and walked: "\<And>j. 0 \<le> j \<Longrightarrow> j < k \<Longrightarrow> ?P (add_days (add_days d dir) (dir * j))"
      and stop: "\<not> ?P (add_days (add_days d dir) (dir * k))"
      by blast
    have shift: "\<And>j. add_days (add_days d dir) (dir * j) = add_days d (dir * (j + 1))"
      by (simp add: add_days_add_days algebra_simps)
    have "\<forall>j. 0 \<le> j \<and> j < k + 1 \<longrightarrow> ?P (add_days d (dir * j))"
    proof (intro allI impI)
      fix j :: int assume j: "0 \<le> j \<and> j < k + 1"
      show "?P (add_days d (dir * j))"
      proof (cases "j = 0")
        case True
        with \<open>?P d\<close> show ?thesis by (simp add: add_days_0)
      next
        case False
        with j have "0 \<le> j - 1" "j - 1 < k" by auto
        from walked[OF this] show ?thesis by (simp add: shift)
      qed
    qed
    moreover from stop have "\<not> ?P (add_days d (dir * (k + 1)))"
      by (simp add: shift)
    moreover from res unfold
    have "nextUnavailableDate_loop st dir d = Some (add_days d (dir * (k + 1)))"
      by (simp add: shift)
    moreover from k have "k + 1 \<ge> 0" by simp
    ultimately show ?thesis by blast
  qed
qed

lemma nextUnavailableDate_walk:
  assumes dir: "dir = 1 \<or> dir = - 1"
  shows "\<exists>k\<ge>1.
           (\<forall>j. 1 \<le> j \<and> j < k \<longrightarrow>
                inVisibleRange st dir (add_days a (dir * j)) \<and>
                \<not> isCellUnavailable st (add_days a (dir * j))) \<and>
           \<not> (inVisibleRange st dir (add_days a (dir * k)) \<and>
              \<not> isCellUnavailable st (add_days a (dir * k))) \<and>
           nextUnavailableDate a st dir =
             Inr (if isCellUnavailable st (add_days a (dir * k))
                  then Some (add_days a (dir * (k - 1))) else None)"
proof -
  from dir have "dir \<noteq> 0" by auto
  from nextUnavailableDate_loop_stops[OF this, of st "add_days a dir"]
  obtain k where k: "k \<ge> 0"
    and res: "nextUnavailableDate_loop st dir (add_days a dir) =
              Some (add_days (add_days a dir) (dir * k))"
    and walked: "\<And>j. 0 \<le> j \<Longrightarrow> j < k \<Longrightarrow>
                   inVisibleRange st dir (add_days (add_days a dir) (dir * j)) \<and>
                   \<not> isCellUnavailable st (add_days (add_days a dir) (dir * j))"
    and stop: "\<not> (inVisibleRange st dir (add_days (add_days a dir) (dir * k)) \<and>
                 \<not> isCellUnavailable st (add_days (add_days a dir) (dir * k)))"
    by blast
  have shift: "\<And>j. add_days (add_days a dir) (dir * j) = add_days a (dir * (j + 1))"
    by (simp add: add_days_add_days algebra_simps)
  have undo: "add_days (add_days a (dir * (k + 1))) (- dir) = add_days a (dir * k)"
    by (simp add: add_days_add_days algebra_simps)
  have "\<forall>j. 1 \<le> j \<and> j < k + 1 \<longrightarrow>
          inVisibleRange st dir (add_days a (dir * j)) \<and>
          \<not> isCellUnavailable st (add_days a (dir * j))"
  proof (intro allI impI)
    fix j :: int assume "1 \<le> j \<and> j < k + 1"
    then have "0 \<le> j - 1" "j - 1 < k" by auto
    from walked[OF this] show "inVisibleRange st dir (add_days a (dir * j)) \<and>
          \<not> isCellUnavailable st (add_days a (dir * j))"
      by (simp add: shift)
  qed
  moreover from stop have "\<not> (inVisibleRange st dir (add_days a (dir * (k + 1))) \<and>
              \<not> isCellUnavailable st (add_days a (dir * (k + 1))))"
    by (simp add: shift)
  moreover have "nextUnavailableDate a st dir =
             Inr (if isCellUnavailable st (add_days a (dir * (k + 1)))
                  then Some (add_days a (dir * ((k + 1) - 1))) else None)"
    by (simp add: nextUnavailableDate_def res shift undo)
  moreover from k have "k + 1 \<ge> 1" by simp
  ultimately show ?thesis by blast
qed

text \<open>
  With a direction of zero days the walk never moves: from a date that is inside the range
  and available the loop runs forever, which the model reports as \<open>Diverges\<close>. The two
  callers pass \<open>-1\<close> and \<open>1\<close> only.
\<close>

lemma nextUnavailableDate_loop_zero:
  assumes "nextUnavailableDate_loop st dir d = Some y"
  shows "dir = 0 \<longrightarrow> \<not> (inVisibleRange st dir d \<and> \<not> isCellUnavailable st d)"
proof (rule nextUnavailableDate_loop.raw_induct
    [where P = "\<lambda>st dir d y. dir = 0 \<longrightarrow> \<not> (inVisibleRange st dir d \<and> \<not> isCellUnavailable st d)",
     OF _ assms])
  fix loop :: "CalendarState \<Rightarrow> int \<Rightarrow> CalendarDate \<Rightarrow> CalendarDate option"
    and st dir d y
  assume IH: "\<And>st dir d y. loop st dir d = Some y \<Longrightarrow>
                dir = 0 \<longrightarrow> \<not> (inVisibleRange st dir d \<and> \<not> isCellUnavailable st d)"
    and eq: "(if inVisibleRange st dir d \<and> \<not> isCellUnavailable st d
              then loop st dir (add_days d dir) else Some d) = Some y"
  show "dir = 0 \<longrightarrow> \<not> (inVisibleRange st dir d \<and> \<not> isCellUnavailable st d)"
  proof (intro impI notI)
    assume z: "dir = 0" and c: "inVisibleRange st dir d \<and> \<not> isCellUnavailable st d"
    with eq have "loop st dir (add_days d dir) = Some y" by simp
    with z have "loop st dir d = Some y" by (simp add: add_days_0)
    from IH[OF this] z c show False by simp
  qed
qed

lemma nextUnavailableDate_diverges:
  assumes "inVisibleRange st 0 a" "\<not> isCellUnavailable st a"
  shows "nextUnavailableDate a st 0 = Inl Diverges"
proof (cases "nextUnavailableDate_loop st 0 a")
  case None
  then show ?thesis by (simp add: nextUnavailableDate_def add_days_0)
next
  case (Some y)
  from nextUnavailableDate_loop_zero[OF this] assms show ?thesis by simp
qed




section \<open>C2: the directional scan\<close>

text \<open>
  Claim C2 fails as it is stated, because the loop tests one edge of the visible range only,
  the one that lies in the direction of travel (lines 211 to 214). From the anchor day 40,
  after a visible range of days 1 to 31, the backward scan walks days 39 to 36, none of which
  is inside the range, and returns day 36 before the unavailable day 35, where a walk that
  goes on only while the date is inside the range would stop at once and return nothing. And
  with every day of the range available and day 32, just past its end, unavailable, the
  forward scan from day 10 returns day 31: the edge of the range itself is the bound.
\<close>

theorem nextUnavailableDate_counterexample:
  "\<not> withinVisibleRange (month [35]) (greg 39) \<and>
   \<not> isCellUnavailable (month [35]) (greg 39) \<and>
   nextUnavailableDate (greg 40) (month [35]) (- 1) = Inr (Some (greg 36)) \<and>
   list_all (\<lambda>n. withinVisibleRange (month [32]) (greg n) \<and>
                  \<not> isCellUnavailable (month [32]) (greg n)) [11, 12, 13, 14, 15, 16, 17, 18, 19, 20,
      21, 22, 23, 24, 25, 26, 27, 28, 29, 30, 31] \<and>
   \<not> withinVisibleRange (month [32]) (greg 32) \<and>
   nextUnavailableDate (greg 10) (month [32]) 1 = Inr (Some (greg 31)) \<and>
   end' (visibleRange (month [32])) = greg 31"
proof -
  have outside: "\<not> withinVisibleRange (month [35]) (greg 39)"
    "\<not> isCellUnavailable (month [35]) (greg 39)"
    "\<not> withinVisibleRange (month [32]) (greg 32)"
    "end' (visibleRange (month [32])) = greg 31"
    by (simp_all add: withinVisibleRange_def month_def greg_def)
  have inside: "list_all (\<lambda>n. withinVisibleRange (month [32]) (greg n) \<and>
                  \<not> isCellUnavailable (month [32]) (greg n)) [11, 12, 13, 14, 15, 16, 17, 18, 19, 20,
      21, 22, 23, 24, 25, 26, 27, 28, 29, 30, 31]"
    by (simp add: withinVisibleRange_def month_def greg_def)
  have walks_outside: "nextUnavailableDate (greg 40) (month [35]) (- 1) = Inr (Some (greg 36))"
    by code_simp
  have edge: "nextUnavailableDate (greg 10) (month [32]) 1 = Inr (Some (greg 31))"
    by code_simp
  from outside inside walks_outside edge show ?thesis by simp
qed

text \<open>
  Claim C2, amended. For a direction \<open>dir\<close> of one day forward or backward,
  \<^verbatim>\<open>nextUnavailableDate\<close> returns, and there is a number \<open>k \<ge> 1\<close> of steps such that: every
  date \<open>anchor + dir * j\<close> with \<open>1 \<le> j < k\<close> was walked, being not past the edge of the
  visible range that lies in the direction of travel (not before its start for \<open>dir = -1\<close>,
  not after its end for \<open>dir = 1\<close>; the other edge is not tested) and available, and inside
  the visible range when the anchor is; the date \<open>anchor + dir * k\<close> is where the walk
  stops, being past that edge or unavailable; the result is the date one step back toward
  the anchor, \<open>anchor + dir * (k - 1)\<close>, when the stopping date is unavailable, also when it
  lies just past the edge, and absent otherwise, that is when the stopping date is past the
  edge and available.
\<close>

theorem nextUnavailableDate_scan:
  assumes "dir = 1 \<or> dir = - 1"
  shows "\<exists>k\<ge>1.
           (\<forall>j. 1 \<le> j \<and> j < k \<longrightarrow>
                (if dir < 0 then day (start (visibleRange st)) \<le> day a + dir * j
                 else day a + dir * j \<le> day (end' (visibleRange st))) \<and>
                \<not> isCellUnavailable st (a\<lparr>day := day a + dir * j\<rparr>) \<and>
                (withinVisibleRange st a \<longrightarrow>
                   withinVisibleRange st (a\<lparr>day := day a + dir * j\<rparr>))) \<and>
           ((if dir < 0 then day a + dir * k < day (start (visibleRange st))
             else day (end' (visibleRange st)) < day a + dir * k) \<or>
            isCellUnavailable st (a\<lparr>day := day a + dir * k\<rparr>)) \<and>
           nextUnavailableDate a st dir =
             Inr (if isCellUnavailable st (a\<lparr>day := day a + dir * k\<rparr>)
                  then Some (a\<lparr>day := day a + dir * (k - 1)\<rparr>) else None)"
proof -
  from nextUnavailableDate_walk[OF assms, of st a] obtain k where k: "k \<ge> 1"
    and walked: "\<And>j. 1 \<le> j \<Longrightarrow> j < k \<Longrightarrow>
                inVisibleRange st dir (add_days a (dir * j)) \<and>
                \<not> isCellUnavailable st (add_days a (dir * j))"
    and stop: "\<not> (inVisibleRange st dir (add_days a (dir * k)) \<and>
              \<not> isCellUnavailable st (add_days a (dir * k)))"
    and res: "nextUnavailableDate a st dir =
             Inr (if isCellUnavailable st (add_days a (dir * k))
                  then Some (add_days a (dir * (k - 1))) else None)"
    by blast
  have edge: "inVisibleRange st dir (add_days a n) \<longleftrightarrow>
        (if dir < 0 then day (start (visibleRange st)) \<le> day a + n
         else day a + n \<le> day (end' (visibleRange st)))" for n
    by (simp add: inVisibleRange_def compareDate_def add_days_def)
  have moved: "add_days a n = a\<lparr>day := day a + n\<rparr>" for n
    by (simp add: add_days_def)
  have inside: "withinVisibleRange st (a\<lparr>day := day a + dir * j\<rparr>)"
    if "1 \<le> j" "inVisibleRange st dir (add_days a (dir * j))" "withinVisibleRange st a" for j
    using that assms by (auto simp: withinVisibleRange_def edge)
  have "\<forall>j. 1 \<le> j \<and> j < k \<longrightarrow>
                (if dir < 0 then day (start (visibleRange st)) \<le> day a + dir * j
                 else day a + dir * j \<le> day (end' (visibleRange st))) \<and>
                \<not> isCellUnavailable st (a\<lparr>day := day a + dir * j\<rparr>) \<and>
                (withinVisibleRange st a \<longrightarrow>
                   withinVisibleRange st (a\<lparr>day := day a + dir * j\<rparr>))"
  proof (intro allI impI)
    fix j assume j: "1 \<le> j \<and> j < k"
    with walked[of j] have w: "inVisibleRange st dir (add_days a (dir * j))"
      "\<not> isCellUnavailable st (add_days a (dir * j))" by simp_all
    from w(1) have "if dir < 0 then day (start (visibleRange st)) \<le> day a + dir * j
                 else day a + dir * j \<le> day (end' (visibleRange st))"
      by (simp add: edge)
    moreover from w(2) have "\<not> isCellUnavailable st (a\<lparr>day := day a + dir * j\<rparr>)"
      by (simp add: moved)
    moreover from j w(1) have "withinVisibleRange st a \<longrightarrow>
                   withinVisibleRange st (a\<lparr>day := day a + dir * j\<rparr>)"
      using inside by blast
    ultimately show "(if dir < 0 then day (start (visibleRange st)) \<le> day a + dir * j
                 else day a + dir * j \<le> day (end' (visibleRange st))) \<and>
                \<not> isCellUnavailable st (a\<lparr>day := day a + dir * j\<rparr>) \<and>
                (withinVisibleRange st a \<longrightarrow>
                   withinVisibleRange st (a\<lparr>day := day a + dir * j\<rparr>))"
      by blast
  qed
  moreover have "(if dir < 0 then day a + dir * k < day (start (visibleRange st))
             else day (end' (visibleRange st)) < day a + dir * k) \<or>
            isCellUnavailable st (a\<lparr>day := day a + dir * k\<rparr>)"
  proof (cases "isCellUnavailable st (add_days a (dir * k))")
    case True
    then show ?thesis by (simp add: moved)
  next
    case False
    with stop have "\<not> inVisibleRange st dir (add_days a (dir * k))" by simp
    then show ?thesis by (auto simp: edge)
  qed
  moreover from res
  have "nextUnavailableDate a st dir =
             Inr (if isCellUnavailable st (a\<lparr>day := day a + dir * k\<rparr>)
                  then Some (a\<lparr>day := day a + dir * (k - 1)\<rparr>) else None)"
    by (simp add: moved)
  ultimately show ?thesis using k by blast
qed


theorem nextUnavailableDate_scan_witness:
  "((1::int) = 1 \<or> (1::int) = - 1) \<and> ((- 1::int) = 1 \<or> (- 1::int) = - 1) \<and>
   nextUnavailableDate (greg 10) (month [15]) 1 = Inr (Some (greg 14)) \<and>
   nextUnavailableDate (greg 10) (month [15]) (- 1) = Inr None"
proof -
  have one: "(1::int) = 1 \<or> (1::int) = - 1" and minus: "(- 1::int) = 1 \<or> (- 1::int) = - 1"
    by simp_all
  have fwd: "nextUnavailableDate (greg 10) (month [15]) 1 = Inr (Some (greg 14))"
  proof -
    from nextUnavailableDate_scan[OF one, of "month [15]" "greg 10"] obtain k where k: "k \<ge> 1"
      and walked: "\<And>j. 1 \<le> j \<Longrightarrow> j < k \<Longrightarrow>
              day (greg 10) + 1 * j \<le> day (end' (visibleRange (month [15]))) \<and>
              \<not> isCellUnavailable (month [15]) ((greg 10)\<lparr>day := day (greg 10) + 1 * j\<rparr>)"
      and stop: "day (end' (visibleRange (month [15]))) < day (greg 10) + 1 * k \<or>
              isCellUnavailable (month [15]) ((greg 10)\<lparr>day := day (greg 10) + 1 * k\<rparr>)"
      and res: "nextUnavailableDate (greg 10) (month [15]) 1 =
           Inr (if isCellUnavailable (month [15]) ((greg 10)\<lparr>day := day (greg 10) + 1 * k\<rparr>)
                then Some ((greg 10)\<lparr>day := day (greg 10) + 1 * (k - 1)\<rparr>) else None)"
      by auto
    have "k = 5"
    proof (rule ccontr)
      assume "k \<noteq> 5"
      then consider "k < 5" | "k > 5" by linarith
      then show False
      proof cases
        case 1
        with stop k show False by (auto simp: month_def greg_def)
      next
        case 2
        with walked[of 5] show False by (auto simp: month_def greg_def)
      qed
    qed
    with res show ?thesis by (simp add: month_def greg_def)
  qed
  have bwd: "nextUnavailableDate (greg 10) (month [15]) (- 1) = Inr None"
  proof -
    from nextUnavailableDate_scan[OF minus, of "month [15]" "greg 10"] obtain k where k: "k \<ge> 1"
      and walked: "\<And>j. 1 \<le> j \<Longrightarrow> j < k \<Longrightarrow>
              day (start (visibleRange (month [15]))) \<le> day (greg 10) + - 1 * j \<and>
              \<not> isCellUnavailable (month [15]) ((greg 10)\<lparr>day := day (greg 10) + - 1 * j\<rparr>)"
      and stop: "day (greg 10) + - 1 * k < day (start (visibleRange (month [15]))) \<or>
              isCellUnavailable (month [15]) ((greg 10)\<lparr>day := day (greg 10) + - 1 * k\<rparr>)"
      and res: "nextUnavailableDate (greg 10) (month [15]) (- 1) =
           Inr (if isCellUnavailable (month [15]) ((greg 10)\<lparr>day := day (greg 10) + - 1 * k\<rparr>)
                then Some ((greg 10)\<lparr>day := day (greg 10) + - 1 * (k - 1)\<rparr>) else None)"
      by auto
    have "k = 10"
    proof (rule ccontr)
      assume "k \<noteq> 10"
      then consider "k < 10" | "k > 10" by linarith
      then show False
      proof cases
        case 1
        with stop k show False by (auto simp: month_def greg_def)
      next
        case 2
        with walked[of 10] show False by (auto simp: month_def greg_def)
      qed
    qed
    with res show ?thesis by (simp add: month_def greg_def)
  qed
  from one minus fwd bwd show ?thesis by simp
qed


section \<open>Facts about picks\<close>

lemma setAnchorDate_None:
  "setAnchorDate props cal None s =
     Inr (s\<lparr>anchorDate := None, availableRangeRef := None, availableRange := None\<rparr>)"
  by (simp add: setAnchorDate_def updateAvailableRange_def)

lemma date_ofCalendarDate [simp]: "date (ofCalendarDate a) = a"
  by (simp add: ofCalendarDate_def)

lemma time_ofCalendarDate [simp]: "time (ofCalendarDate a) = None"
  by (simp add: ofCalendarDate_def)

lemma makeRange_pure:
  "makeRange (Some (ofCalendarDate a)) (Some (ofCalendarDate b)) =
     Some (if day b < day a then \<lparr>start = b, end' = a\<rparr> else \<lparr>start = a, end' = b\<rparr>)"
  by (simp add: makeRange_def compare_ofCalendarDate toCalendarDate_def)

lemma selectDate_dropped:
  assumes "previousAvailableDate (constrainValue d (min_effective props s) (max_effective props s))
             (start (visibleRange cal)) (isDateUnavailable props) = None"
  shows "selectDate props cal d s = Inr s"
  using assms by (simp add: selectDate_def)

lemma selectDate_anchor:
  assumes "\<not> isReadOnly props" and "anchorDate s = None"
    and "previousAvailableDate (constrainValue d (min_effective props s) (max_effective props s))
             (start (visibleRange cal)) (isDateUnavailable props) = Some d2"
  shows "selectDate props cal d s = setAnchorDate props cal (Some d2) s"
  using assms by (simp add: selectDate_def)

lemma selectDate_commit:
  assumes "\<not> isReadOnly props" and "anchorDate s = Some a"
    and "previousAvailableDate (constrainValue d (min_effective props s) (max_effective props s))
             (start (visibleRange cal)) (isDateUnavailable props) = Some d2"
  shows "selectDate props cal d s =
           Inr (s\<lparr>value' := Some \<lparr>start = convertValue (if day d2 < day a then d2 else a)
                                              (map_option start (value' s)),
                                    end' = convertValue (if day d2 < day a then a else d2)
                                              (map_option end' (value' s))\<rparr>,
                   anchorDate := None, availableRangeRef := None, availableRange := None\<rparr>)"
  using assms by (simp add: selectDate_def makeRange_pure setAnchorDate_None setValue_def)

lemma convertValue_eq:
  "convertValue n old =
     \<lparr>date = \<lparr>calendar = (case old of None \<Rightarrow> GregorianCalendar | Some v \<Rightarrow> calendar (date v)),
              day = day n\<rparr>,
      time = (case old of None \<Rightarrow> None | Some v \<Rightarrow> time v)\<rparr>"
  by (cases old)
     (auto simp: convertValue_def toCalendar_def ofCalendarDate_def set_fields_def Let_def
           intro!: DateValue.equality CalendarDate.equality)


section \<open>C7: read-only\<close>

text \<open>
  Claim C7. When \<^verbatim>\<open>isReadOnly\<close> is set, \<^verbatim>\<open>selectDate\<close> returns and leaves the whole state as
  it was: the committed value, the anchor date and the available range (state and ref) are
  unchanged, for every state and every candidate date.
\<close>

theorem selectDate_readOnly:
  "isReadOnly props \<Longrightarrow> selectDate props cal d s = Inr s"
  by (simp add: selectDate_def)

theorem selectDate_readOnly_witness:
  "isReadOnly (exampleProps None None None False True) \<and>
   selectDate (exampleProps None None None False True) (month []) (greg 8)
     (anchored 3 (initialState (Some timedValue) (month []))) =
   Inr (anchored 3 (initialState (Some timedValue) (month [])))"
  using selectDate_readOnly[of "exampleProps None None None False True" "month []" "greg 8"
          "anchored 3 (initialState (Some timedValue) (month []))"]
  by (simp add: exampleProps_def)

section \<open>C3: value conversion\<close>

text \<open>
  Claim C3. \<^verbatim>\<open>convertValue\<close> emits the day of the new date in the calendar system of the old
  endpoint when there is one and in the Gregorian system otherwise, with exactly the time of
  day of the old endpoint: none when there is no old endpoint or it is a pure date. A commit
  by \<^verbatim>\<open>selectDate\<close> converts the start of the normalized range against the old start and
  the end against the old end, so each emitted endpoint has the time of day and the calendar
  system of its own old endpoint only.
\<close>

theorem convertValue_endpoints:
  "convertValue n old =
     \<lparr>date = \<lparr>calendar = (case old of None \<Rightarrow> GregorianCalendar | Some v \<Rightarrow> calendar (date v)),
              day = day n\<rparr>,
      time = (case old of None \<Rightarrow> None | Some v \<Rightarrow> time v)\<rparr> \<and>
   (\<not> isReadOnly props \<and> anchorDate s = Some a \<and>
    previousAvailableDate (constrainValue d (min_effective props s) (max_effective props s))
      (start (visibleRange cal)) (isDateUnavailable props) = Some d2 \<longrightarrow>
    (\<exists>s' v. selectDate props cal d s = Inr s' \<and> value' s' = Some v \<and>
       start v = convertValue (if day d2 < day a then d2 else a) (map_option start (value' s)) \<and>
       end' v = convertValue (if day d2 < day a then a else d2) (map_option end' (value' s)) \<and>
       time (start v) = (case value' s of None \<Rightarrow> None | Some old \<Rightarrow> time (start old)) \<and>
       time (end' v) = (case value' s of None \<Rightarrow> None | Some old \<Rightarrow> time (end' old)) \<and>
       calendar (date (start v)) =
         (case value' s of None \<Rightarrow> GregorianCalendar | Some old \<Rightarrow> calendar (date (start old))) \<and>
       calendar (date (end' v)) =
         (case value' s of None \<Rightarrow> GregorianCalendar | Some old \<Rightarrow> calendar (date (end' old)))))"
proof (intro conjI impI)
  show "convertValue n old =
     \<lparr>date = \<lparr>calendar = (case old of None \<Rightarrow> GregorianCalendar | Some v \<Rightarrow> calendar (date v)),
              day = day n\<rparr>,
      time = (case old of None \<Rightarrow> None | Some v \<Rightarrow> time v)\<rparr>"
    by (rule convertValue_eq)
next
  assume h: "\<not> isReadOnly props \<and> anchorDate s = Some a \<and>
    previousAvailableDate (constrainValue d (min_effective props s) (max_effective props s))
      (start (visibleRange cal)) (isDateUnavailable props) = Some d2"
  let ?v = "\<lparr>start = convertValue (if day d2 < day a then d2 else a) (map_option start (value' s)),
             end' = convertValue (if day d2 < day a then a else d2) (map_option end' (value' s))\<rparr>"
  let ?s' = "s\<lparr>value' := Some ?v, anchorDate := None, availableRangeRef := None,
               availableRange := None\<rparr>"
  from h have "selectDate props cal d s = Inr ?s'"
    by (simp add: selectDate_commit)
  moreover have "value' ?s' = Some ?v" by simp
  moreover have "time (start ?v) = (case value' s of None \<Rightarrow> None | Some old \<Rightarrow> time (start old))"
    "time (end' ?v) = (case value' s of None \<Rightarrow> None | Some old \<Rightarrow> time (end' old))"
    "calendar (date (start ?v)) =
         (case value' s of None \<Rightarrow> GregorianCalendar | Some old \<Rightarrow> calendar (date (start old)))"
    "calendar (date (end' ?v)) =
         (case value' s of None \<Rightarrow> GregorianCalendar | Some old \<Rightarrow> calendar (date (end' old)))"
    by (simp_all add: convertValue_eq split: option.splits)
  ultimately show "\<exists>s' v. selectDate props cal d s = Inr s' \<and> value' s' = Some v \<and>
       start v = convertValue (if day d2 < day a then d2 else a) (map_option start (value' s)) \<and>
       end' v = convertValue (if day d2 < day a then a else d2) (map_option end' (value' s)) \<and>
       time (start v) = (case value' s of None \<Rightarrow> None | Some old \<Rightarrow> time (start old)) \<and>
       time (end' v) = (case value' s of None \<Rightarrow> None | Some old \<Rightarrow> time (end' old)) \<and>
       calendar (date (start v)) =
         (case value' s of None \<Rightarrow> GregorianCalendar | Some old \<Rightarrow> calendar (date (start old))) \<and>
       calendar (date (end' v)) =
         (case value' s of None \<Rightarrow> GregorianCalendar | Some old \<Rightarrow> calendar (date (end' old)))"
    by (intro exI[of _ ?s'] exI[of _ ?v]) simp
qed


theorem convertValue_endpoints_witness:
  "\<not> isReadOnly (exampleProps None None None False False) \<and>
   anchorDate (anchored 3 (initialState (Some timedValue) (month []))) = Some (greg 3) \<and>
   previousAvailableDate
     (constrainValue (greg 8)
        (min_effective (exampleProps None None None False False)
           (anchored 3 (initialState (Some timedValue) (month []))))
        (max_effective (exampleProps None None None False False)
           (anchored 3 (initialState (Some timedValue) (month [])))))
     (start (visibleRange (month []))) (isDateUnavailable (exampleProps None None None False False))
     = Some (greg 8) \<and>
   (\<exists>s'. selectDate (exampleProps None None None False False) (month []) (greg 8)
           (anchored 3 (initialState (Some timedValue) (month []))) = Inr s' \<and>
         value' s' =
           Some \<lparr>start = \<lparr>date = \<lparr>calendar = OtherCalendar ''hebrew'', day = 3\<rparr>,
                           time = Some 32400000\<rparr>,
                 end' = \<lparr>date = \<lparr>calendar = GregorianCalendar, day = 8\<rparr>, time = None\<rparr>\<rparr>)"
proof -
  let ?p = "exampleProps None None None False False"
  let ?s = "anchored 3 (initialState (Some timedValue) (month []))"
  have h: "\<not> isReadOnly ?p \<and> anchorDate ?s = Some (greg 3) \<and>
    previousAvailableDate (constrainValue (greg 8) (min_effective ?p ?s) (max_effective ?p ?s))
      (start (visibleRange (month []))) (isDateUnavailable ?p) = Some (greg 8)"
    by (simp add: exampleProps_def previousAvailableDate_def constrainValue_def min_effective_def
        max_effective_def maxDate_def minDate_def anchored_def initialState_def)
  from convertValue_endpoints[of "greg 3" "Some (start timedValue)" ?p ?s "greg 3" "greg 8" "month []" "greg 8"] h
  obtain s' v where sel: "selectDate ?p (month []) (greg 8) ?s = Inr s'" and v: "value' s' = Some v"
    and st: "start v = convertValue (if day (greg 8) < day (greg 3) then greg 8 else greg 3)
                         (map_option start (value' ?s))"
    and en: "end' v = convertValue (if day (greg 8) < day (greg 3) then greg 3 else greg 8)
                         (map_option end' (value' ?s))"
    by blast
  have eq: "convertValue (greg 3) (Some (start timedValue)) =
         \<lparr>date = \<lparr>calendar = OtherCalendar ''hebrew'', day = 3\<rparr>, time = Some 32400000\<rparr>"
    using convertValue_endpoints[of "greg 3" "Some (start timedValue)" ?p ?s "greg 3" "greg 8" "month []" "greg 8"]
    by (simp add: timedValue_def greg_def)
  have "v = \<lparr>start = \<lparr>date = \<lparr>calendar = OtherCalendar ''hebrew'', day = 3\<rparr>,
                           time = Some 32400000\<rparr>,
                 end' = \<lparr>date = \<lparr>calendar = GregorianCalendar, day = 8\<rparr>, time = None\<rparr>\<rparr>"
    using st en eq
    by (simp add: anchored_def initialState_def greg_def timedValue_def convertValue_eq)
  with sel v h show ?thesis by blast
qed


section \<open>C6: the validation state\<close>

text \<open>
  The caller's explicit flag overrides the derived classification (line 154), which makes
  claim C6 fail as it is stated. First, a committed value whose start the predicate marks
  unavailable is classified \<open>valid\<close>, not \<open>invalid\<close>, when the caller's flag says \<open>valid\<close>.
  Second, the value is flagged \<open>invalid\<close> while an anchor is active when the caller's flag says
  so. Third, with no value and no anchor there is a validation state when the caller supplies
  one.
\<close>

theorem validationState_counterexample:
  "anchorDate (initialState (Some (dayRange 5 8)) (month [5])) = None \<and>
   value' (initialState (Some (dayRange 5 8)) (month [5])) = Some (dayRange 5 8) \<and>
   marksUnavailable (flagged valid (exampleProps None None (Some [5]) False False))
     (start (dayRange 5 8)) \<and>
   validationState (flagged valid (exampleProps None None (Some [5]) False False))
     (initialState (Some (dayRange 5 8)) (month [5])) = Some valid \<and>
   anchorDate (anchored 3 (initialState None (month []))) = Some (greg 3) \<and>
   validationState (flagged invalid (exampleProps None None None False False))
     (anchored 3 (initialState None (month []))) = Some invalid \<and>
   anchorDate (initialState None (month [])) = None \<and>
   value' (initialState None (month [])) = None \<and>
   validationState (flagged invalid (exampleProps None None None False False))
     (initialState None (month [])) = Some invalid"
  by (simp add: validationState_def flagged_def exampleProps_def initialState_def anchored_def
        marksUnavailable_def dayRange_def greg_def ofCalendarDate_def)

text \<open>
  Claim C6, amended. The validation state is the caller's explicit flag whenever one is
  supplied. When none is supplied: for a committed value and no active anchor it is
  \<open>invalid\<close> if and only if the predicate marks either endpoint unavailable or either
  endpoint falls outside the caller's minimum and maximum, and it is never \<open>valid\<close>; while an
  anchor is active there is no validation state; and with no value there is none either.
\<close>

theorem validationState_cases:
  "(validationState_prop props = Some f \<longrightarrow> validationState props s = Some f) \<and>
   (validationState_prop props = None \<and> anchorDate s = None \<and> value' s = Some v \<longrightarrow>
      (validationState props s = Some invalid \<longleftrightarrow>
         marksUnavailable props (start v) \<or> marksUnavailable props (end' v) \<or>
         isInvalid (start v) (minValue props) (maxValue props) \<or>
         isInvalid (end' v) (minValue props) (maxValue props)) \<and>
      validationState props s \<noteq> Some valid) \<and>
   (validationState_prop props = None \<and> anchorDate s \<noteq> None \<longrightarrow> validationState props s = None) \<and>
   (validationState_prop props = None \<and> value' s = None \<longrightarrow> validationState props s = None)"
  by (auto simp: validationState_def isInvalidSelection_def marksUnavailable_def
           split: option.splits if_splits)

theorem validationState_cases_witness:
  "validationState_prop (flagged valid (exampleProps None None (Some [5]) False False)) = Some valid \<and>
   validationState (flagged valid (exampleProps None None (Some [5]) False False))
     (initialState (Some (dayRange 5 8)) (month [5])) = Some valid \<and>
   validationState_prop (exampleProps None None (Some [5]) False False) = None \<and>
   anchorDate (initialState (Some (dayRange 5 8)) (month [5])) = None \<and>
   value' (initialState (Some (dayRange 5 8)) (month [5])) = Some (dayRange 5 8) \<and>
   marksUnavailable (exampleProps None None (Some [5]) False False) (start (dayRange 5 8)) \<and>
   validationState (exampleProps None None (Some [5]) False False)
     (initialState (Some (dayRange 5 8)) (month [5])) = Some invalid \<and>
   anchorDate (anchored 3 (initialState (Some (dayRange 5 8)) (month [5]))) \<noteq> None \<and>
   validationState (exampleProps None None (Some [5]) False False)
     (anchored 3 (initialState (Some (dayRange 5 8)) (month [5]))) = None \<and>
   value' (initialState None (month [5])) = None \<and>
   validationState (exampleProps None None (Some [5]) False False)
     (initialState None (month [5])) = None"
proof -
  let ?p = "exampleProps None None (Some [5]) False False"
  let ?s = "initialState (Some (dayRange 5 8)) (month [5])"
  have facts:
    "validationState_prop (flagged valid ?p) = Some valid"
    "validationState_prop ?p = None" "anchorDate ?s = None" "value' ?s = Some (dayRange 5 8)"
    "marksUnavailable ?p (start (dayRange 5 8))"
    "anchorDate (anchored 3 ?s) \<noteq> None"
    "value' (initialState None (month [5])) = None"
    by (simp_all add: flagged_def exampleProps_def initialState_def anchored_def
          marksUnavailable_def dayRange_def greg_def ofCalendarDate_def)
  from validationState_cases[of "flagged valid ?p" valid ?s "dayRange 5 8"] facts(1)
  have 1: "validationState (flagged valid ?p) ?s = Some valid" by blast
  from validationState_cases[of ?p valid ?s "dayRange 5 8"] facts(2-5)
  have 2: "validationState ?p ?s = Some invalid" by blast
  from validationState_cases[of ?p valid "anchored 3 ?s" "dayRange 5 8"] facts(2,6)
  have 3: "validationState ?p (anchored 3 ?s) = None" by blast
  from validationState_cases[of ?p valid "initialState None (month [5])" "dayRange 5 8"] facts(2,7)
  have 4: "validationState ?p (initialState None (month [5])) = None" by blast
  from facts 1 2 3 4 show ?thesis by simp
qed

section \<open>C8: the initial window alignment\<close>

text \<open>
  Claim C8. For a committed value, the alignment is \<open>Start\<close> when the end of the value
  compares after the last day of the window obtained by centring on the start of the value
  (the aligned start plus the visible duration minus one day), and \<open>Center\<close> otherwise;
  without a value it is \<open>Center\<close>.
\<close>

theorem alignment_of_value:
  "alignment alignCenter add visibleDuration locale props (Some v) =
     (if compare (end' v)
           (ofCalendarDate
              (add_days
                 (add (alignCenter (toCalendarDate (start v)) visibleDuration locale
                         (minValue props) (maxValue props))
                    visibleDuration)
                 (- 1))) > 0
      then Start else Center) \<and>
   alignment alignCenter add visibleDuration locale props None = Center"
  by (simp add: alignment_def Let_def)


section \<open>The invariant of the available range\<close>

lemma nextUnavailableDate_returns:
  "\<exists>r. nextUnavailableDate a st 1 = Inr r" "\<exists>r. nextUnavailableDate a st (- 1) = Inr r"
  using nextUnavailableDate_walk[of 1 st a] nextUnavailableDate_walk[of "- 1" st a]
  by blast+

lemma updateAvailableRange_shape:
  "\<exists>r. updateAvailableRange props cal d s =
          Inr (s\<lparr>availableRangeRef := r, availableRange := r\<rparr>) \<and>
        (r \<noteq> None \<longrightarrow>
           d \<noteq> None \<and> isDateUnavailable props \<noteq> None \<and> \<not> allowsNonContiguousRanges props)"
proof (cases d)
  case None
  then show ?thesis by (simp add: updateAvailableRange_def)
next
  case (Some a)
  show ?thesis
  proof (cases "isDateUnavailable props \<noteq> None \<and> \<not> allowsNonContiguousRanges props")
    case False
    with Some show ?thesis by (auto simp: updateAvailableRange_def)
  next
    case True
    from nextUnavailableDate_returns[of a cal] obtain lo hi
      where "nextUnavailableDate a cal (- 1) = Inr lo" "nextUnavailableDate a cal 1 = Inr hi"
      by blast
    with Some True show ?thesis by (auto simp: updateAvailableRange_def)
  qed
qed

lemma updateAvailableRange_inv:
  assumes "updateAvailableRange props cal (anchorDate s) s = Inr s'"
  shows "availableRange_inv props s' \<and> anchorDate s' = anchorDate s \<and> value' s' = value' s"
proof -
  from updateAvailableRange_shape[of props cal "anchorDate s" s] assms
  obtain r where "s' = s\<lparr>availableRangeRef := r, availableRange := r\<rparr>"
    and "r \<noteq> None \<longrightarrow> anchorDate s \<noteq> None \<and> isDateUnavailable props \<noteq> None \<and>
           \<not> allowsNonContiguousRanges props"
    by auto
  then show ?thesis by (auto simp: availableRange_inv_def)
qed

lemma setAnchorDate_inv:
  "\<exists>s'. setAnchorDate props cal d s = Inr s' \<and> availableRange_inv props s' \<and>
        anchorDate s' = d \<and> value' s' = value' s"
proof -
  let ?s = "s\<lparr>anchorDate := d\<rparr>"
  from updateAvailableRange_shape[of props cal "anchorDate ?s" ?s]
  obtain s' where upd: "updateAvailableRange props cal (anchorDate ?s) ?s = Inr s'" by blast
  from updateAvailableRange_inv[OF upd]
  have "availableRange_inv props s' \<and> anchorDate s' = d \<and> value' s' = value' s" by simp
  moreover from upd have "setAnchorDate props cal d s = Inr s'"
    by (cases d) (simp_all add: setAnchorDate_def)
  ultimately show ?thesis by blast
qed

lemma render_inv:
  assumes "availableRange_inv props s"
  shows "\<exists>s'. render props cal s = Inr s' \<and> availableRange_inv props s' \<and>
              anchorDate s' = anchorDate s \<and> value' s' = value' s"
proof (cases "\<not> isEqualDay (start (visibleRange cal)) (start (lastVisibleRange s)) \<or>
         \<not> isEqualDay (end' (visibleRange cal)) (end' (lastVisibleRange s))")
  case False
  with assms show ?thesis by (auto simp: render_def)
next
  case True
  from updateAvailableRange_shape[of props cal "anchorDate s" s]
  obtain s1 where upd: "updateAvailableRange props cal (anchorDate s) s = Inr s1" by blast
  from updateAvailableRange_inv[OF upd]
  have i: "availableRange_inv props s1" and a: "anchorDate s1 = anchorDate s"
    and v: "value' s1 = value' s"
    by simp_all
  from i have "availableRange_inv props (s1\<lparr>lastVisibleRange := visibleRange cal\<rparr>)"
    unfolding availableRange_inv_def by simp
  with a v
  have "availableRange_inv props (s1\<lparr>lastVisibleRange := visibleRange cal\<rparr>) \<and>
        anchorDate (s1\<lparr>lastVisibleRange := visibleRange cal\<rparr>) = anchorDate s \<and>
        value' (s1\<lparr>lastVisibleRange := visibleRange cal\<rparr>) = value' s"
    by simp
  moreover from True upd
  have "render props cal s = Inr (s1\<lparr>lastVisibleRange := visibleRange cal\<rparr>)"
    by (auto simp: render_def)
  ultimately show ?thesis by blast
qed

lemma selectDate_inv:
  assumes "availableRange_inv props s"
  shows "\<exists>s'. selectDate props cal d s = Inr s' \<and> availableRange_inv props s'"
proof (cases "isReadOnly props")
  case True
  with assms show ?thesis by (simp add: selectDate_def)
next
  case False
  let ?c = "constrainValue d (min_effective props s) (max_effective props s)"
  show ?thesis
  proof (cases "previousAvailableDate ?c (start (visibleRange cal)) (isDateUnavailable props)")
    case None
    with assms show ?thesis by (simp add: selectDate_dropped)
  next
    case (Some d2)
    show ?thesis
    proof (cases "anchorDate s")
      case None
      with False Some have "selectDate props cal d s = setAnchorDate props cal (Some d2) s"
        by (simp add: selectDate_anchor)
      with setAnchorDate_inv[of props cal "Some d2" s] show ?thesis by auto
    next
      case (Some a)
      with False \<open>previousAvailableDate ?c (start (visibleRange cal)) (isDateUnavailable props) = Some d2\<close>
      show ?thesis
        by (simp add: selectDate_commit availableRange_inv_def)
    qed
  qed
qed

lemma handle_inv:
  assumes "availableRange_inv props s"
  shows "\<exists>s'. handle props cal ev s = Inr s' \<and> availableRange_inv props s'"
proof (cases ev)
  case (SelectDate d)
  with selectDate_inv[OF assms, of cal d] show ?thesis by (simp add: handle_def)
next
  case SelectFocusedDate
  with selectDate_inv[OF assms, of cal "focusedDate cal"] show ?thesis
    by (simp add: handle_def selectFocusedDate_def)
next
  case (SetAnchorDate d)
  with setAnchorDate_inv[of props cal d s] show ?thesis by (auto simp: handle_def)
next
  case (SetValue v)
  with assms show ?thesis by (simp add: handle_def setValue_def availableRange_inv_def)
next
  case (SetDragging b)
  with assms show ?thesis by (simp add: handle_def setDragging_def availableRange_inv_def)
qed

lemma step_inv:
  assumes "availableRange_inv props s"
  shows "\<exists>s'. step props cal ev s = Inr s' \<and> availableRange_inv props s'"
proof -
  from render_inv[OF assms, of cal] obtain s1
    where "render props cal s = Inr s1" "availableRange_inv props s1" by blast
  with handle_inv[of props s1 cal ev] show ?thesis
    by (simp add: step_def andThen_def)
qed

lemma run_inv:
  "availableRange_inv props s \<Longrightarrow>
   \<exists>s'. run props evs s = Inr s' \<and> availableRange_inv props s'"
proof (induction evs arbitrary: s)
  case Nil
  then show ?case by simp
next
  case (Cons e evs)
  obtain cal ev where e: "e = (cal, ev)" by (cases e)
  from step_inv[OF Cons.prems, of cal ev] obtain s1
    where "step props cal ev s = Inr s1" "availableRange_inv props s1" by blast
  with Cons.IH[of s1] e show ?case by (simp add: andThen_def)
qed

lemma initialState_inv: "availableRange_inv props (initialState v cal)"
  by (simp add: availableRange_inv_def initialState_def)

lemma inv_no_anchor:
  assumes "availableRange_inv props s" "anchorDate s = None"
  shows "availableRange s = None \<and> availableRangeRef s = None \<and>
         state_isInvalid cal s d = calendar_isInvalid cal d"
  using assms by (auto simp: availableRange_inv_def state_isInvalid_def isInvalid_def)


section \<open>Snapping back to an available date\<close>

lemma previousAvailableDate_loop_stops:
  "\<exists>k\<ge>0. previousAvailableDate_loop d w u = add_days d (- k) \<and>
          (\<forall>j. 0 \<le> j \<and> j < k \<longrightarrow>
               compareDate (add_days d (- j)) w \<ge> 0 \<and> u (add_days d (- j))) \<and>
          \<not> (compareDate (add_days d (- k)) w \<ge> 0 \<and> u (add_days d (- k)))"
proof (induction d w u rule: previousAvailableDate_loop.induct)
  case (1 d w u)
  show ?case
  proof (cases "compareDate d w \<ge> 0 \<and> u d")
    case False
    then have "previousAvailableDate_loop d w u = d"
      by (subst previousAvailableDate_loop.simps) auto
    with False show ?thesis by (intro exI[of _ 0]) (auto simp: add_days_0)
  next
    case True
    from "1.IH"[OF True] obtain k where k: "k \<ge> 0"
      and res: "previousAvailableDate_loop (add_days d (- 1)) w u = add_days (add_days d (- 1)) (- k)"
      and walked: "\<And>j. 0 \<le> j \<Longrightarrow> j < k \<Longrightarrow>
               compareDate (add_days (add_days d (- 1)) (- j)) w \<ge> 0 \<and>
               u (add_days (add_days d (- 1)) (- j))"
      and stop: "\<not> (compareDate (add_days (add_days d (- 1)) (- k)) w \<ge> 0 \<and>
                   u (add_days (add_days d (- 1)) (- k)))"
      by blast
    have shift: "\<And>j. add_days (add_days d (- 1)) (- j) = add_days d (- (j + 1))"
      by (simp add: add_days_def)
    have "\<forall>j. 0 \<le> j \<and> j < k + 1 \<longrightarrow>
            compareDate (add_days d (- j)) w \<ge> 0 \<and> u (add_days d (- j))"
    proof (intro allI impI)
      fix j :: int assume j: "0 \<le> j \<and> j < k + 1"
      show "compareDate (add_days d (- j)) w \<ge> 0 \<and> u (add_days d (- j))"
      proof (cases "j = 0")
        case True
        with \<open>compareDate d w \<ge> 0 \<and> u d\<close> show ?thesis by (simp add: add_days_0)
      next
        case False
        with j have "0 \<le> j - 1" "j - 1 < k" by auto
        from walked[OF this] show ?thesis by (simp add: add_days_add_days)
      qed
    qed
    moreover from stop
    have "\<not> (compareDate (add_days d (- (k + 1))) w \<ge> 0 \<and> u (add_days d (- (k + 1))))"
      by (simp add: shift)
    moreover from True
    have "previousAvailableDate_loop d w u = previousAvailableDate_loop (add_days d (- 1)) w u"
      by (subst previousAvailableDate_loop.simps) auto
    with res have "previousAvailableDate_loop d w u = add_days d (- (k + 1))"
      by (simp add: shift)
    moreover from k have "k + 1 \<ge> 0" by simp
    ultimately show ?thesis by blast
  qed
qed

lemma previousAvailableDate_snaps:
  assumes unav: "unavailable (ofCalendarDate c)"
  shows "(\<exists>k>0. compareDate (add_days c (- k)) w \<ge> 0 \<and>
                \<not> unavailable (ofCalendarDate (add_days c (- k))) \<and>
                (\<forall>j. 0 \<le> j \<and> j < k \<longrightarrow> unavailable (ofCalendarDate (add_days c (- j)))) \<and>
                previousAvailableDate c w (Some unavailable) = Some (add_days c (- k))) \<or>
         ((\<forall>j. 0 \<le> j \<and> j \<le> day c - day w \<longrightarrow> unavailable (ofCalendarDate (add_days c (- j)))) \<and>
          previousAvailableDate c w (Some unavailable) = None)"
proof -
  let ?u = "\<lambda>x. unavailable (ofCalendarDate x)"
  from previousAvailableDate_loop_stops[of c w ?u] obtain k where k: "k \<ge> 0"
    and res: "previousAvailableDate_loop c w ?u = add_days c (- k)"
    and walked: "\<And>j. 0 \<le> j \<Longrightarrow> j < k \<Longrightarrow>
                   compareDate (add_days c (- j)) w \<ge> 0 \<and> ?u (add_days c (- j))"
    and stop: "\<not> (compareDate (add_days c (- k)) w \<ge> 0 \<and> ?u (add_days c (- k)))"
    by blast
  show ?thesis
  proof (cases "compareDate (add_days c (- k)) w \<ge> 0")
    case True
    with stop have avail: "\<not> ?u (add_days c (- k))" by simp
    with unav have "k \<noteq> 0" by (auto simp: add_days_0)
    with k have "k > 0" by simp
    moreover from True res
    have "previousAvailableDate c w (Some unavailable) = Some (add_days c (- k))"
      by (simp add: previousAvailableDate_def)
    moreover from walked
    have "\<forall>j. 0 \<le> j \<and> j < k \<longrightarrow> unavailable (ofCalendarDate (add_days c (- j)))"
      by blast
    ultimately show ?thesis using True avail by blast
  next
    case False
    with res have none: "previousAvailableDate c w (Some unavailable) = None"
      by (simp add: previousAvailableDate_def)
    from False have "day c - day w < k"
      by (simp add: compareDate_def day_add_days)
    with walked
    have "\<forall>j. 0 \<le> j \<and> j \<le> day c - day w \<longrightarrow> unavailable (ofCalendarDate (add_days c (- j)))"
      by auto
    with none show ?thesis by blast
  qed
qed


section \<open>C5: snapping back, or dropping the pick\<close>

text \<open>
  Claim C5. When the clamped candidate of a pick is unavailable, one of two things happens.
  Either some date \<open>k > 0\<close> days before it is available and not before the start of the
  visible range, every date passed on the way being unavailable: then \<^verbatim>\<open>selectDate\<close> goes on
  with that date (it becomes the anchor, or the range between it and the anchor is
  committed), unless the state is read-only. Or every date from the clamped candidate back
  to the start of the visible range is unavailable: then \<^verbatim>\<open>selectDate\<close> returns the state
  as it was, so neither the anchor nor the committed value nor anything derived changes.
\<close>

theorem selectDate_snaps_back:
  assumes pred: "isDateUnavailable props = Some unavailable"
    and unav: "unavailable (ofCalendarDate (clampedCandidate props s d))"
  shows "(\<exists>k>0.
            compareDate (add_days (clampedCandidate props s d) (- k))
              (start (visibleRange cal)) \<ge> 0 \<and>
            \<not> unavailable (ofCalendarDate (add_days (clampedCandidate props s d) (- k))) \<and>
            (\<forall>j. 0 \<le> j \<and> j < k \<longrightarrow>
                 unavailable (ofCalendarDate (add_days (clampedCandidate props s d) (- j)))) \<and>
            selectDate props cal d s =
              (if isReadOnly props then Inr s
               else case anchorDate s of
                      None \<Rightarrow>
                        setAnchorDate props cal
                          (Some (add_days (clampedCandidate props s d) (- k))) s
                    | Some a \<Rightarrow>
                        Inr (committed a (add_days (clampedCandidate props s d) (- k)) s))) \<or>
         ((\<forall>j. 0 \<le> j \<and>
               j \<le> day (clampedCandidate props s d) - day (start (visibleRange cal)) \<longrightarrow>
               unavailable (ofCalendarDate (add_days (clampedCandidate props s d) (- j)))) \<and>
          selectDate props cal d s = Inr s)"
proof -
  let ?c = "clampedCandidate props s d"
  let ?w = "start (visibleRange cal)"
  have alt: "(\<exists>k>0. compareDate (add_days ?c (- k)) ?w \<ge> 0 \<and>
                \<not> unavailable (ofCalendarDate (add_days ?c (- k))) \<and>
                (\<forall>j. 0 \<le> j \<and> j < k \<longrightarrow> unavailable (ofCalendarDate (add_days ?c (- j)))) \<and>
                previousAvailableDate ?c ?w (Some unavailable) = Some (add_days ?c (- k))) \<or>
         ((\<forall>j. 0 \<le> j \<and> j \<le> day ?c - day ?w \<longrightarrow> unavailable (ofCalendarDate (add_days ?c (- j)))) \<and>
          previousAvailableDate ?c ?w (Some unavailable) = None)"
    using unav by (rule previousAvailableDate_snaps)
  then consider k where "k > 0" "compareDate (add_days ?c (- k)) ?w \<ge> 0"
      "\<not> unavailable (ofCalendarDate (add_days ?c (- k)))"
      "\<forall>j. 0 \<le> j \<and> j < k \<longrightarrow> unavailable (ofCalendarDate (add_days ?c (- j)))"
      "previousAvailableDate ?c ?w (Some unavailable) = Some (add_days ?c (- k))"
    | "\<forall>j. 0 \<le> j \<and> j \<le> day ?c - day ?w \<longrightarrow> unavailable (ofCalendarDate (add_days ?c (- j)))"
      "previousAvailableDate ?c ?w (Some unavailable) = None"
    by (elim disjE exE conjE) auto
  then show ?thesis
  proof cases
    case 1
    from 1(5) pred have prev:
      "previousAvailableDate (constrainValue d (min_effective props s) (max_effective props s))
         ?w (isDateUnavailable props) = Some (add_days ?c (- k))"
      by (simp add: clampedCandidate_def)
    have "selectDate props cal d s =
              (if isReadOnly props then Inr s
               else case anchorDate s of
                      None \<Rightarrow> setAnchorDate props cal (Some (add_days ?c (- k))) s
                    | Some a \<Rightarrow> Inr (committed a (add_days ?c (- k)) s))"
    proof (cases "isReadOnly props")
      case True
      then show ?thesis by (simp add: selectDate_def)
    next
      case False
      show ?thesis
      proof (cases "anchorDate s")
        case None
        with False prev show ?thesis by (simp add: selectDate_anchor)
      next
        case (Some a)
        with False prev show ?thesis by (simp add: selectDate_commit committed_def)
      qed
    qed
    with 1(1-4) show ?thesis by blast
  next
    case 2
    from 2(2) pred have
      "previousAvailableDate (constrainValue d (min_effective props s) (max_effective props s))
         ?w (isDateUnavailable props) = None"
      by (simp add: clampedCandidate_def)
    then have "selectDate props cal d s = Inr s" by (rule selectDate_dropped)
    with 2(1) show ?thesis by blast
  qed
qed


theorem selectDate_snaps_back_witness:
  "isDateUnavailable (exampleProps None None (Some [14, 15]) True False) =
     Some (\<lambda>v. day (date v) \<in> set [14, 15]) \<and>
   (\<lambda>v. day (date v) \<in> set [14, 15])
     (ofCalendarDate (clampedCandidate (exampleProps None None (Some [14, 15]) True False)
        (initialState None (month [14, 15])) (greg 15))) \<and>
   selectDate (exampleProps None None (Some [14, 15]) True False) (month [14, 15]) (greg 15)
     (initialState None (month [14, 15])) =
     Inr (anchored 13 (initialState None (month [14, 15]))) \<and>
   selectDate (exampleProps None None (Some [1, 2, 3]) True False) (month [1, 2, 3]) (greg 3)
     (initialState None (month [1, 2, 3])) =
     Inr (initialState None (month [1, 2, 3]))"
proof -
  let ?p = "exampleProps None None (Some [14, 15]) True False"
  let ?cal = "month [14, 15]"
  let ?s = "initialState None ?cal"
  let ?u = "\<lambda>v. day (date v) \<in> set [14, 15]"
  have pred: "isDateUnavailable ?p = Some ?u" by (simp add: exampleProps_def)
  have cc: "clampedCandidate ?p ?s (greg 15) = greg 15"
    by (simp add: clampedCandidate_def constrainValue_def min_effective_def max_effective_def
          maxDate_def minDate_def exampleProps_def initialState_def)
  have unav: "?u (ofCalendarDate (clampedCandidate ?p ?s (greg 15)))"
    unfolding cc by (simp add: greg_def)
  have facts: "\<not> isReadOnly ?p" "anchorDate ?s = None" "day (greg 15) - day (start (visibleRange ?cal)) = 14"
    by (simp_all add: exampleProps_def initialState_def month_def greg_def)
  have days: "\<And>j. day (add_days (greg 15) (- j)) = 15 - j"
    by (simp add: add_days_def greg_def)
  from selectDate_snaps_back[of ?p ?u ?s "greg 15" ?cal, OF pred unav]
  have "(\<exists>k>0. \<not> ?u (ofCalendarDate (add_days (greg 15) (- k))) \<and>
            (\<forall>j. 0 \<le> j \<and> j < k \<longrightarrow> ?u (ofCalendarDate (add_days (greg 15) (- j)))) \<and>
            selectDate ?p ?cal (greg 15) ?s =
              setAnchorDate ?p ?cal (Some (add_days (greg 15) (- k))) ?s) \<or>
        (\<forall>j. 0 \<le> j \<and> j \<le> 14 \<longrightarrow> ?u (ofCalendarDate (add_days (greg 15) (- j))))"
    unfolding cc facts(3) using facts(1,2) by auto
  then have snapped: "selectDate ?p ?cal (greg 15) ?s = Inr (anchored 13 ?s)"
  proof
    assume "\<exists>k>0. \<not> ?u (ofCalendarDate (add_days (greg 15) (- k))) \<and>
            (\<forall>j. 0 \<le> j \<and> j < k \<longrightarrow> ?u (ofCalendarDate (add_days (greg 15) (- j)))) \<and>
            selectDate ?p ?cal (greg 15) ?s =
              setAnchorDate ?p ?cal (Some (add_days (greg 15) (- k))) ?s"
    then obtain k where k: "k > 0" and free: "\<not> ?u (ofCalendarDate (add_days (greg 15) (- k)))"
      and passed: "\<And>j. 0 \<le> j \<Longrightarrow> j < k \<Longrightarrow> ?u (ofCalendarDate (add_days (greg 15) (- j)))"
      and sel: "selectDate ?p ?cal (greg 15) ?s =
                  setAnchorDate ?p ?cal (Some (add_days (greg 15) (- k))) ?s"
      by blast
    have "k = 2"
    proof (rule ccontr)
      assume "k \<noteq> 2"
      with k consider "k = 1" | "k > 2" by linarith
      then show False
      proof cases
        case 1
        with free show False by (simp add: days)
      next
        case 2
        with passed[of 2] show False by (simp add: days)
      qed
    qed
    with sel have "selectDate ?p ?cal (greg 15) ?s = setAnchorDate ?p ?cal (Some (greg 13)) ?s"
      by (simp add: add_days_def greg_def)
    also have "\<dots> = Inr (anchored 13 ?s)"
      by (simp add: setAnchorDate_def updateAvailableRange_def exampleProps_def anchored_def
            initialState_def)
    finally show ?thesis .
  next
    assume "\<forall>j. 0 \<le> j \<and> j \<le> 14 \<longrightarrow> ?u (ofCalendarDate (add_days (greg 15) (- j)))"
    then have "?u (ofCalendarDate (add_days (greg 15) (- 2)))" by simp
    then show ?thesis by (simp add: days)
  qed
  let ?q = "exampleProps None None (Some [1, 2, 3]) True False"
  let ?calq = "month [1, 2, 3]"
  let ?t = "initialState None ?calq"
  let ?v = "\<lambda>v. day (date v) \<in> set [1, 2, 3]"
  have predq: "isDateUnavailable ?q = Some ?v" by (simp add: exampleProps_def)
  have cq: "clampedCandidate ?q ?t (greg 3) = greg 3"
    by (simp add: clampedCandidate_def constrainValue_def min_effective_def max_effective_def
          maxDate_def minDate_def exampleProps_def initialState_def)
  have unavq: "?v (ofCalendarDate (clampedCandidate ?q ?t (greg 3)))"
    unfolding cq by (simp add: greg_def)
  have daysq: "\<And>j. day (add_days (greg 3) (- j)) = 3 - j"
    by (simp add: add_days_def greg_def)
  from selectDate_snaps_back[of ?q ?v ?t "greg 3" ?calq, OF predq unavq]
  have "(\<exists>k>0. compareDate (add_days (greg 3) (- k)) (start (visibleRange ?calq)) \<ge> 0 \<and>
               \<not> ?v (ofCalendarDate (add_days (greg 3) (- k)))) \<or>
        selectDate ?q ?calq (greg 3) ?t = Inr ?t"
    unfolding cq by blast
  then have dropped: "selectDate ?q ?calq (greg 3) ?t = Inr ?t"
  proof
    assume "\<exists>k>0. compareDate (add_days (greg 3) (- k)) (start (visibleRange ?calq)) \<ge> 0 \<and>
               \<not> ?v (ofCalendarDate (add_days (greg 3) (- k)))"
    then obtain k where "k > 0" "compareDate (add_days (greg 3) (- k)) (start (visibleRange ?calq)) \<ge> 0"
      "\<not> ?v (ofCalendarDate (add_days (greg 3) (- k)))"
      by blast
    then have False
      by (auto simp: compareDate_def day_add_days month_def greg_def)
    then show ?thesis ..
  qed
  from pred unav snapped dropped show ?thesis by simp
qed


section \<open>Two picks\<close>

lemma constrainValue_id:
  assumes "\<And>m. lo = Some m \<Longrightarrow> day (date m) \<le> day d"
    and "\<And>m. hi = Some m \<Longrightarrow> day d \<le> day (date m)"
  shows "constrainValue d lo hi = d"
  using assms
  by (auto simp: constrainValue_def Let_def compareDate_def toCalendarDate_def split: option.splits)

lemma maxDate_cases: "maxDate a b = Some m \<Longrightarrow> a = Some m \<or> b = Some m"
  by (auto simp: maxDate_def split: option.splits if_splits)

lemma minDate_cases: "minDate a b = Some m \<Longrightarrow> a = Some m \<or> b = Some m"
  by (auto simp: minDate_def split: option.splits if_splits)

lemma isInvalid_ofCalendarDate:
  "isInvalid (ofCalendarDate d) lo hi \<longleftrightarrow>
     (\<exists>m. lo = Some m \<and> day d < day (date m)) \<or> (\<exists>m. hi = Some m \<and> day (date m) < day d)"
  by (auto simp: isInvalid_def compare_ofCalendarDate split: option.splits)

lemma previousAvailableDate_available:
  assumes "\<not> marksUnavailable props (ofCalendarDate d)"
    and "isDateUnavailable props \<noteq> None \<longrightarrow> compareDate d w \<ge> 0"
  shows "previousAvailableDate d w (isDateUnavailable props) = Some d"
proof (cases "isDateUnavailable props")
  case None
  then show ?thesis by (simp add: previousAvailableDate_def)
next
  case (Some u)
  with assms have "\<not> u (ofCalendarDate d)" "compareDate d w \<ge> 0"
    by (simp_all add: marksUnavailable_def)
  then have "previousAvailableDate_loop d w (\<lambda>c. u (ofCalendarDate c)) = d"
    by (subst previousAvailableDate_loop.simps) simp
  with Some \<open>compareDate d w \<ge> 0\<close> show ?thesis by (simp add: previousAvailableDate_def)
qed

lemma updateAvailableRange_bounds:
  assumes "isDateUnavailable props \<noteq> None" "\<not> allowsNonContiguousRanges props"
  shows "\<exists>lo hi. updateAvailableRange props cal (Some a) s =
            Inr (s\<lparr>availableRangeRef := Some \<lparr>start = lo, end' = hi\<rparr>,
                   availableRange := Some \<lparr>start = lo, end' = hi\<rparr>\<rparr>) \<and>
          (\<forall>x. lo = Some x \<longrightarrow>
             (\<exists>k\<ge>1. x = add_days a (- (k - 1)) \<and> isCellUnavailable cal (add_days a (- k)))) \<and>
          (\<forall>x. hi = Some x \<longrightarrow>
             (\<exists>k\<ge>1. x = add_days a (k - 1) \<and> isCellUnavailable cal (add_days a k)))"
proof -
  from nextUnavailableDate_walk[of "- 1" cal a] obtain k where k: "k \<ge> 1"
    and lo: "nextUnavailableDate a cal (- 1) =
               Inr (if isCellUnavailable cal (add_days a (- 1 * k))
                    then Some (add_days a (- 1 * (k - 1))) else None)"
    by auto
  from nextUnavailableDate_walk[of 1 cal a] obtain l where l: "l \<ge> 1"
    and hi: "nextUnavailableDate a cal 1 =
               Inr (if isCellUnavailable cal (add_days a (1 * l))
                    then Some (add_days a (1 * (l - 1))) else None)"
    by auto
  let ?lo = "if isCellUnavailable cal (add_days a (- k)) then Some (add_days a (- (k - 1))) else None"
  let ?hi = "if isCellUnavailable cal (add_days a l) then Some (add_days a (l - 1)) else None"
  from lo hi assms have "updateAvailableRange props cal (Some a) s =
            Inr (s\<lparr>availableRangeRef := Some \<lparr>start = ?lo, end' = ?hi\<rparr>,
                   availableRange := Some \<lparr>start = ?lo, end' = ?hi\<rparr>\<rparr>)"
    by (simp add: updateAvailableRange_def)
  moreover from k have "\<forall>x. ?lo = Some x \<longrightarrow>
             (\<exists>k\<ge>1. x = add_days a (- (k - 1)) \<and> isCellUnavailable cal (add_days a (- k)))"
    by (auto split: if_splits)
  moreover from l have "\<forall>x. ?hi = Some x \<longrightarrow>
             (\<exists>k\<ge>1. x = add_days a (k - 1) \<and> isCellUnavailable cal (add_days a k))"
    by (auto split: if_splits)
  ultimately show ?thesis by blast
qed


lemma effective_bounds_no_range:
  assumes "availableRange s = None"
  shows "min_effective props s = minValue props" "max_effective props s = maxValue props"
  using assms
  by (auto simp: min_effective_def max_effective_def maxDate_def minDate_def split: option.splits)

lemma first_pick:
  assumes ro: "\<not> isReadOnly props"
    and s0: "anchorDate s = None" "availableRange s = None"
    and bounds: "\<not> isInvalid (ofCalendarDate a) (minValue props) (maxValue props)"
    and avail: "\<not> marksUnavailable props (ofCalendarDate a)"
    and window: "isDateUnavailable props \<noteq> None \<longrightarrow> compareDate a (start (visibleRange cal)) \<ge> 0"
  shows "\<exists>r. selectDate props cal a s =
              Inr (s\<lparr>anchorDate := Some a, availableRangeRef := r, availableRange := r\<rparr>) \<and>
            (r \<noteq> None \<longrightarrow>
               isDateUnavailable props \<noteq> None \<and> \<not> allowsNonContiguousRanges props) \<and>
            (\<forall>rng. r = Some rng \<longrightarrow>
               (\<forall>x. start rng = Some x \<longrightarrow>
                  (\<exists>k\<ge>1. x = add_days a (- (k - 1)) \<and> isCellUnavailable cal (add_days a (- k)))) \<and>
               (\<forall>x. end' rng = Some x \<longrightarrow>
                  (\<exists>k\<ge>1. x = add_days a (k - 1) \<and> isCellUnavailable cal (add_days a k))))"
proof -
  from bounds have "constrainValue a (minValue props) (maxValue props) = a"
    by (intro constrainValue_id) (auto simp: isInvalid_ofCalendarDate)
  with s0 have clamp: "constrainValue a (min_effective props s) (max_effective props s) = a"
    by (simp add: effective_bounds_no_range)
  from previousAvailableDate_available[OF avail window]
  have "previousAvailableDate a (start (visibleRange cal)) (isDateUnavailable props) = Some a" .
  with clamp ro s0 have sel: "selectDate props cal a s = setAnchorDate props cal (Some a) s"
    by (simp add: selectDate_anchor)
  let ?s = "s\<lparr>anchorDate := Some a\<rparr>"
  show ?thesis
  proof (cases "isDateUnavailable props \<noteq> None \<and> \<not> allowsNonContiguousRanges props")
    case False
    then have "setAnchorDate props cal (Some a) s =
        Inr (s\<lparr>anchorDate := Some a, availableRangeRef := None, availableRange := None\<rparr>)"
      by (auto simp: setAnchorDate_def updateAvailableRange_def)
    with sel show ?thesis by auto
  next
    case True
    then have c: "isDateUnavailable props \<noteq> None" "\<not> allowsNonContiguousRanges props" by simp_all
    from updateAvailableRange_bounds[OF c, of cal a ?s] obtain lo hi
      where upd: "updateAvailableRange props cal (Some a) ?s =
            Inr (?s\<lparr>availableRangeRef := Some \<lparr>start = lo, end' = hi\<rparr>,
                   availableRange := Some \<lparr>start = lo, end' = hi\<rparr>\<rparr>)"
        and lo: "\<forall>x. lo = Some x \<longrightarrow>
             (\<exists>k\<ge>1. x = add_days a (- (k - 1)) \<and> isCellUnavailable cal (add_days a (- k)))"
        and hi: "\<forall>x. hi = Some x \<longrightarrow>
             (\<exists>k\<ge>1. x = add_days a (k - 1) \<and> isCellUnavailable cal (add_days a k))"
      by blast
    from upd sel have "selectDate props cal a s =
        Inr (s\<lparr>anchorDate := Some a, availableRangeRef := Some \<lparr>start = lo, end' = hi\<rparr>,
               availableRange := Some \<lparr>start = lo, end' = hi\<rparr>\<rparr>)"
      by (simp add: setAnchorDate_def)
    with lo hi c show ?thesis by auto
  qed
qed

lemma second_pick:
  assumes ro: "\<not> isReadOnly props"
    and anchor: "anchorDate s = Some a"
    and rng: "\<forall>rng. availableRange s = Some rng \<longrightarrow>
               (\<forall>x. start rng = Some x \<longrightarrow>
                  (\<exists>k\<ge>1. x = add_days a (- (k - 1)) \<and> isCellUnavailable cal (add_days a (- k)))) \<and>
               (\<forall>x. end' rng = Some x \<longrightarrow>
                  (\<exists>k\<ge>1. x = add_days a (k - 1) \<and> isCellUnavailable cal (add_days a k)))"
    and bounds: "\<not> isInvalid (ofCalendarDate b) (minValue props) (maxValue props)"
    and avail: "\<not> marksUnavailable props (ofCalendarDate b)"
    and window: "isDateUnavailable props \<noteq> None \<longrightarrow> compareDate b (start (visibleRange cal)) \<ge> 0"
    and between: "availableRange s \<noteq> None \<longrightarrow>
       (\<forall>k. (0 < k \<and> k \<le> day b - day a) \<or> (day b - day a \<le> k \<and> k < 0) \<longrightarrow>
            \<not> isCellUnavailable cal (add_days a k))"
  shows "selectDate props cal b s = Inr (committed a b s)"
proof -
  have lower: "day (date m) \<le> day b" if m: "min_effective props s = Some m" for m
  proof -
    from m maxDate_cases consider "minValue props = Some m"
      | "(case availableRange s of None \<Rightarrow> None | Some r \<Rightarrow> map_option ofCalendarDate (start r)) = Some m"
      unfolding min_effective_def by blast
    then show ?thesis
    proof cases
      case 1
      with bounds show ?thesis by (auto simp: isInvalid_ofCalendarDate)
    next
      case 2
      then obtain r x where r: "availableRange s = Some r" "start r = Some x" "m = ofCalendarDate x"
        by (auto split: option.splits)
      with rng obtain k where k: "k \<ge> 1" "x = add_days a (- (k - 1))"
        "isCellUnavailable cal (add_days a (- k))"
        by blast
      have "day a - k + 1 \<le> day b"
      proof (rule ccontr)
        assume "\<not> day a - k + 1 \<le> day b"
        with k(1) have "day b - day a \<le> - k \<and> - k < 0" by simp
        with between r(1) k(3) show False by blast
      qed
      with r(3) k(2) show ?thesis by (simp add: day_add_days)
    qed
  qed
  have upper: "day b \<le> day (date m)" if m: "max_effective props s = Some m" for m
  proof -
    from m minDate_cases consider "maxValue props = Some m"
      | "(case availableRange s of None \<Rightarrow> None | Some r \<Rightarrow> map_option ofCalendarDate (end' r)) = Some m"
      unfolding max_effective_def by blast
    then show ?thesis
    proof cases
      case 1
      with bounds show ?thesis by (auto simp: isInvalid_ofCalendarDate)
    next
      case 2
      then obtain r x where r: "availableRange s = Some r" "end' r = Some x" "m = ofCalendarDate x"
        by (auto split: option.splits)
      with rng obtain k where k: "k \<ge> 1" "x = add_days a (k - 1)"
        "isCellUnavailable cal (add_days a k)"
        by blast
      have "day b \<le> day a + k - 1"
      proof (rule ccontr)
        assume "\<not> day b \<le> day a + k - 1"
        with k(1) have "0 < k \<and> k \<le> day b - day a" by simp
        with between r(1) k(3) show False by blast
      qed
      with r(3) k(2) show ?thesis by (simp add: day_add_days)
    qed
  qed
  from lower upper
  have "constrainValue b (min_effective props s) (max_effective props s) = b"
    by (intro constrainValue_id)
  moreover from previousAvailableDate_available[OF avail window]
  have "previousAvailableDate b (start (visibleRange cal)) (isDateUnavailable props) = Some b" .
  ultimately show ?thesis using ro anchor
    by (simp add: selectDate_commit committed_def)
qed


lemma value_committed: "value' (committed a b s) = Some (emitted (normalized a b) (value' s))"
  by (simp add: committed_def emitted_def normalized_def)

lemma emitted_ordered:
  "day (date (start (emitted (normalized a b) old))) \<le> day (date (end' (emitted (normalized a b) old)))"
  by (simp add: emitted_def normalized_def convertValue_eq)

lemma render_fixed:
  assumes "isEqualDay (start (visibleRange cal)) (start (lastVisibleRange s))"
    and "isEqualDay (end' (visibleRange cal)) (end' (lastVisibleRange s))"
  shows "render props cal s = Inr s"
  using assms by (simp add: render_def)

lemma render_no_anchor:
  assumes "anchorDate s = None" "availableRange s = None"
  shows "\<exists>s'. render props cal s = Inr s' \<and> anchorDate s' = None \<and> availableRange s' = None \<and>
           value' s' = value' s \<and>
           isEqualDay (start (visibleRange cal)) (start (lastVisibleRange s')) \<and>
           isEqualDay (end' (visibleRange cal)) (end' (lastVisibleRange s'))"
  using assms by (auto simp: render_def updateAvailableRange_def isEqualDay_def)

lemma two_picks_direct:
  assumes ro: "\<not> isReadOnly props"
    and s0: "anchorDate s = None" "availableRange s = None"
    and bounds: "\<not> isInvalid (ofCalendarDate a) (minValue props) (maxValue props)"
                "\<not> isInvalid (ofCalendarDate b) (minValue props) (maxValue props)"
    and avail: "\<not> marksUnavailable props (ofCalendarDate a)"
               "\<not> marksUnavailable props (ofCalendarDate b)"
    and window: "isDateUnavailable props \<noteq> None \<longrightarrow>
                   compareDate a (start (visibleRange cal)) \<ge> 0 \<and>
                   compareDate b (start (visibleRange cal)) \<ge> 0"
    and between: "isDateUnavailable props \<noteq> None \<and> \<not> allowsNonContiguousRanges props \<longrightarrow>
       (\<forall>k. (0 < k \<and> k \<le> day b - day a) \<or> (day b - day a \<le> k \<and> k < 0) \<longrightarrow>
            \<not> isCellUnavailable cal (add_days a k))"
  shows "\<exists>s1 s2. selectDate props cal a s = Inr s1 \<and> anchorDate s1 = Some a \<and>
           value' s1 = value' s \<and> lastVisibleRange s1 = lastVisibleRange s \<and>
           selectDate props cal b s1 = Inr s2 \<and> anchorDate s2 = None \<and>
           availableRange s2 = None \<and> availableRangeRef s2 = None \<and>
           value' s2 = Some (emitted (normalized a b) (value' s))"
proof -
  from window have wa: "isDateUnavailable props \<noteq> None \<longrightarrow> compareDate a (start (visibleRange cal)) \<ge> 0"
    and wb: "isDateUnavailable props \<noteq> None \<longrightarrow> compareDate b (start (visibleRange cal)) \<ge> 0"
    by simp_all
  from first_pick[OF ro s0 bounds(1) avail(1) wa] obtain r
    where sel1: "selectDate props cal a s =
              Inr (s\<lparr>anchorDate := Some a, availableRangeRef := r, availableRange := r\<rparr>)"
      and rc: "r \<noteq> None \<longrightarrow>
               isDateUnavailable props \<noteq> None \<and> \<not> allowsNonContiguousRanges props"
      and r: "\<forall>rng. r = Some rng \<longrightarrow>
               (\<forall>x. start rng = Some x \<longrightarrow>
                  (\<exists>k\<ge>1. x = add_days a (- (k - 1)) \<and> isCellUnavailable cal (add_days a (- k)))) \<and>
               (\<forall>x. end' rng = Some x \<longrightarrow>
                  (\<exists>k\<ge>1. x = add_days a (k - 1) \<and> isCellUnavailable cal (add_days a k)))"
    by blast
  let ?s1 = "s\<lparr>anchorDate := Some a, availableRangeRef := r, availableRange := r\<rparr>"
  from rc between have btw: "availableRange ?s1 \<noteq> None \<longrightarrow>
       (\<forall>k. (0 < k \<and> k \<le> day b - day a) \<or> (day b - day a \<le> k \<and> k < 0) \<longrightarrow>
            \<not> isCellUnavailable cal (add_days a k))"
    by simp
  have "selectDate props cal b ?s1 = Inr (committed a b ?s1)"
    by (rule second_pick[OF ro _ _ bounds(2) avail(2) wb btw]) (use r in simp_all)
  moreover have "value' (committed a b ?s1) = Some (emitted (normalized a b) (value' s))"
    by (simp add: value_committed)
  moreover have "anchorDate (committed a b ?s1) = None" "availableRange (committed a b ?s1) = None"
    "availableRangeRef (committed a b ?s1) = None"
    by (simp_all add: committed_def)
  ultimately show ?thesis using sel1 by simp
qed


lemma two_picks_events:
  assumes ro: "\<not> isReadOnly props"
    and s0: "anchorDate s = None" "availableRange s = None"
    and bounds: "\<not> isInvalid (ofCalendarDate a) (minValue props) (maxValue props)"
                "\<not> isInvalid (ofCalendarDate b) (minValue props) (maxValue props)"
    and avail: "\<not> marksUnavailable props (ofCalendarDate a)"
               "\<not> marksUnavailable props (ofCalendarDate b)"
    and window: "isDateUnavailable props \<noteq> None \<longrightarrow>
                   compareDate a (start (visibleRange cal)) \<ge> 0 \<and>
                   compareDate b (start (visibleRange cal)) \<ge> 0"
    and between: "isDateUnavailable props \<noteq> None \<and> \<not> allowsNonContiguousRanges props \<longrightarrow>
       (\<forall>k. (0 < k \<and> k \<le> day b - day a) \<or> (day b - day a \<le> k \<and> k < 0) \<longrightarrow>
            \<not> isCellUnavailable cal (add_days a k))"
  shows "\<exists>s2. run props [(cal, SelectDate a), (cal, SelectDate b)] s = Inr s2 \<and>
               anchorDate s2 = None \<and> availableRange s2 = None \<and> availableRangeRef s2 = None \<and>
               value' s2 = Some (emitted (normalized a b) (value' s))"
proof -
  from render_no_anchor[OF s0, of props cal] obtain r0
    where r0: "render props cal s = Inr r0" "anchorDate r0 = None" "availableRange r0 = None"
      "value' r0 = value' s"
      "isEqualDay (start (visibleRange cal)) (start (lastVisibleRange r0))"
      "isEqualDay (end' (visibleRange cal)) (end' (lastVisibleRange r0))"
    by blast
  from two_picks_direct[OF ro r0(2,3) bounds avail window between] obtain s1 s2
    where s1: "selectDate props cal a r0 = Inr s1" "lastVisibleRange s1 = lastVisibleRange r0"
      and s2: "selectDate props cal b s1 = Inr s2" "anchorDate s2 = None"
        "availableRange s2 = None" "availableRangeRef s2 = None"
        "value' s2 = Some (emitted (normalized a b) (value' r0))"
    by blast
  from r0(5,6) s1(2) have "render props cal s1 = Inr s1"
    by (simp add: render_fixed)
  with r0(1) s1(1) s2(1)
  have "run props [(cal, SelectDate a), (cal, SelectDate b)] s = Inr s2"
    by (simp add: step_def handle_def andThen_def)
  with s2 r0(4)
  show ?thesis
    by simp
qed

section \<open>C1: two picks commit the normalized range\<close>

text \<open>
  Claim C1 fails as it is stated, for three reasons that the code shows by design. First,
  with contiguity enforced the second pick is clamped into the available range around the
  anchor: with day 15 unavailable, the picks of days 10 and 20, both in bounds and
  available, commit days 10 to 14 and not the normalized range 10 to 20. Second, with a
  predicate supplied a pick before the start of the visible range is dropped: the picks of
  days 0 and 5 leave day 5 as the anchor and commit nothing. Third, a read-only state
  ignores both picks.
\<close>

theorem two_picks_counterexample:
  "\<not> isInvalid (ofCalendarDate (greg 10)) (minValue scenarioB) (maxValue scenarioB) \<and>
   \<not> isInvalid (ofCalendarDate (greg 20)) (minValue scenarioB) (maxValue scenarioB) \<and>
   \<not> marksUnavailable scenarioB (ofCalendarDate (greg 10)) \<and>
   \<not> marksUnavailable scenarioB (ofCalendarDate (greg 20)) \<and>
   anchorDate (initialState None (month [15])) = None \<and>
   andThen (selectDate scenarioB (month [15]) (greg 10) (initialState None (month [15])))
     (selectDate scenarioB (month [15]) (greg 20)) =
     Inr (initialState (Some (dayRange 10 14)) (month [15])) \<and>
   run scenarioB [(month [15], SelectDate (greg 10)), (month [15], SelectDate (greg 20))]
     (initialState None (month [15])) =
     Inr (initialState (Some (dayRange 10 14)) (month [15])) \<and>
   emitted (normalized (greg 10) (greg 20)) None = dayRange 10 20 \<and>
   dayRange 10 14 \<noteq> dayRange 10 20 \<and>
   \<not> isInvalid (ofCalendarDate (greg 0)) (minValue scenarioB) (maxValue scenarioB) \<and>
   \<not> isInvalid (ofCalendarDate (greg 5)) (minValue scenarioB) (maxValue scenarioB) \<and>
   \<not> marksUnavailable scenarioB (ofCalendarDate (greg 0)) \<and>
   \<not> marksUnavailable scenarioB (ofCalendarDate (greg 5)) \<and>
   selectDate scenarioB (month [15]) (greg 0) (initialState None (month [15])) =
     Inr (initialState None (month [15])) \<and>
   map_sum id value'
     (andThen (selectDate scenarioB (month [15]) (greg 0) (initialState None (month [15])))
        (selectDate scenarioB (month [15]) (greg 5))) = Inr None \<and>
   map_sum id anchorDate
     (andThen (selectDate scenarioB (month [15]) (greg 0) (initialState None (month [15])))
        (selectDate scenarioB (month [15]) (greg 5))) = Inr (Some (greg 5)) \<and>
   isReadOnly (exampleProps None None None False True) \<and>
   andThen
     (selectDate (exampleProps None None None False True) (month []) (greg 10)
        (initialState None (month [])))
     (selectDate (exampleProps None None None False True) (month []) (greg 20)) =
     Inr (initialState None (month []))"
proof -
  have inputs:
    "\<not> isInvalid (ofCalendarDate (greg 10)) (minValue scenarioB) (maxValue scenarioB)"
    "\<not> isInvalid (ofCalendarDate (greg 20)) (minValue scenarioB) (maxValue scenarioB)"
    "\<not> marksUnavailable scenarioB (ofCalendarDate (greg 10))"
    "\<not> marksUnavailable scenarioB (ofCalendarDate (greg 20))"
    "\<not> isInvalid (ofCalendarDate (greg 0)) (minValue scenarioB) (maxValue scenarioB)"
    "\<not> isInvalid (ofCalendarDate (greg 5)) (minValue scenarioB) (maxValue scenarioB)"
    "\<not> marksUnavailable scenarioB (ofCalendarDate (greg 0))"
    "\<not> marksUnavailable scenarioB (ofCalendarDate (greg 5))"
    "anchorDate (initialState None (month [15])) = None"
    "isReadOnly (exampleProps None None None False True)"
    by (simp_all add: scenarioB_def exampleProps_def isInvalid_def marksUnavailable_def
          initialState_def greg_def)
  have obstructed:
    "andThen (selectDate scenarioB (month [15]) (greg 10) (initialState None (month [15])))
       (selectDate scenarioB (month [15]) (greg 20)) =
     Inr (initialState (Some (dayRange 10 14)) (month [15]))"
    by code_simp
  have obstructed_run:
    "run scenarioB [(month [15], SelectDate (greg 10)), (month [15], SelectDate (greg 20))]
       (initialState None (month [15])) =
     Inr (initialState (Some (dayRange 10 14)) (month [15]))"
    by code_simp
  have expected: "emitted (normalized (greg 10) (greg 20)) None = dayRange 10 20"
    "dayRange 10 14 \<noteq> dayRange 10 20"
    by (simp_all add: emitted_def normalized_def convertValue_eq dayRange_def greg_def
          ofCalendarDate_def)
  have before_window:
    "selectDate scenarioB (month [15]) (greg 0) (initialState None (month [15])) =
       Inr (initialState None (month [15]))"
    "map_sum id value'
       (andThen (selectDate scenarioB (month [15]) (greg 0) (initialState None (month [15])))
          (selectDate scenarioB (month [15]) (greg 5))) = Inr None"
    "map_sum id anchorDate
       (andThen (selectDate scenarioB (month [15]) (greg 0) (initialState None (month [15])))
          (selectDate scenarioB (month [15]) (greg 5))) = Inr (Some (greg 5))"
    by code_simp+
  have read_only:
    "andThen
       (selectDate (exampleProps None None None False True) (month []) (greg 10)
          (initialState None (month [])))
       (selectDate (exampleProps None None None False True) (month []) (greg 20)) =
     Inr (initialState None (month []))"
    by (simp add: selectDate_def andThen_def exampleProps_def)
  from inputs obstructed obstructed_run expected before_window read_only
  show ?thesis by simp
qed

text \<open>
  Claim C1, amended. Let the state be not read-only, with no anchor and hence no available
  range; let \<open>a\<close> and \<open>b\<close> be in bounds and available and, when a predicate is supplied, not
  before the start of the visible range; and, when contiguity is enforced, let no cell
  strictly after \<open>a\<close> up to \<open>b\<close> (or from \<open>b\<close> up to strictly before \<open>a\<close>) be unavailable.
  Then \<^verbatim>\<open>selectDate(a); selectDate(b)\<close>, applied to the state directly or as two events each
  preceded by its render, returns, clears the anchor and the available range, and commits
  the normalized range of \<open>a\<close> and \<open>b\<close>, swapped when \<open>b\<close> is the earlier day, each endpoint
  converted against the corresponding endpoint of the prior value; the start of the
  committed range is not after its end.
\<close>

theorem two_picks_commit:
  assumes ro: "\<not> isReadOnly props"
    and s0: "anchorDate s = None" "availableRange s = None"
    and bounds: "\<not> isInvalid (ofCalendarDate a) (minValue props) (maxValue props)"
                "\<not> isInvalid (ofCalendarDate b) (minValue props) (maxValue props)"
    and avail: "\<not> marksUnavailable props (ofCalendarDate a)"
               "\<not> marksUnavailable props (ofCalendarDate b)"
    and window: "isDateUnavailable props \<noteq> None \<longrightarrow>
                   compareDate a (start (visibleRange cal)) \<ge> 0 \<and>
                   compareDate b (start (visibleRange cal)) \<ge> 0"
    and between: "isDateUnavailable props \<noteq> None \<and> \<not> allowsNonContiguousRanges props \<longrightarrow>
       (\<forall>k. (0 < k \<and> k \<le> day b - day a) \<or> (day b - day a \<le> k \<and> k < 0) \<longrightarrow>
            \<not> isCellUnavailable cal (add_days a k))"
  shows "(\<exists>s2. andThen (selectDate props cal a s) (selectDate props cal b) = Inr s2 \<and>
               anchorDate s2 = None \<and> availableRange s2 = None \<and> availableRangeRef s2 = None \<and>
               value' s2 = Some (emitted (normalized a b) (value' s))) \<and>
         (\<exists>s2. run props [(cal, SelectDate a), (cal, SelectDate b)] s = Inr s2 \<and>
               anchorDate s2 = None \<and> availableRange s2 = None \<and> availableRangeRef s2 = None \<and>
               value' s2 = Some (emitted (normalized a b) (value' s))) \<and>
         makeRange (Some (ofCalendarDate a)) (Some (ofCalendarDate b)) = Some (normalized a b) \<and>
         normalized a b =
           (if day b < day a then \<lparr>start = b, end' = a\<rparr> else \<lparr>start = a, end' = b\<rparr>) \<and>
         day (start (normalized a b)) \<le> day (end' (normalized a b)) \<and>
         day (date (start (emitted (normalized a b) (value' s)))) \<le>
           day (date (end' (emitted (normalized a b) (value' s))))"
proof (intro conjI)
  from two_picks_direct[OF ro s0 bounds avail window between]
  show "\<exists>s2. andThen (selectDate props cal a s) (selectDate props cal b) = Inr s2 \<and>
               anchorDate s2 = None \<and> availableRange s2 = None \<and> availableRangeRef s2 = None \<and>
               value' s2 = Some (emitted (normalized a b) (value' s))"
    by (auto simp: andThen_def)
next
  from two_picks_events[OF ro s0 bounds avail window between]
  show "\<exists>s2. run props [(cal, SelectDate a), (cal, SelectDate b)] s = Inr s2 \<and>
               anchorDate s2 = None \<and> availableRange s2 = None \<and> availableRangeRef s2 = None \<and>
               value' s2 = Some (emitted (normalized a b) (value' s))" .
next
  show "makeRange (Some (ofCalendarDate a)) (Some (ofCalendarDate b)) = Some (normalized a b)"
    by (simp add: makeRange_pure normalized_def)
next
  show "normalized a b =
           (if day b < day a then \<lparr>start = b, end' = a\<rparr> else \<lparr>start = a, end' = b\<rparr>)"
    by (simp add: normalized_def)
next
  show "day (start (normalized a b)) \<le> day (end' (normalized a b))"
    by (simp add: normalized_def)
next
  show "day (date (start (emitted (normalized a b) (value' s)))) \<le>
           day (date (end' (emitted (normalized a b) (value' s))))"
    by (rule emitted_ordered)
qed


theorem two_picks_commit_witness:
  "\<not> isReadOnly (exampleProps (Some 1) (Some 31) (Some [15]) False False) \<and>
   (\<exists>s2. andThen
           (selectDate (exampleProps (Some 1) (Some 31) (Some [15]) False False) (month [15])
              (greg 12) (initialState (Some timedValue) (month [15])))
           (selectDate (exampleProps (Some 1) (Some 31) (Some [15]) False False) (month [15])
              (greg 10)) = Inr s2 \<and>
         anchorDate s2 = None \<and> availableRange s2 = None \<and>
         value' s2 =
           Some \<lparr>start = \<lparr>date = \<lparr>calendar = OtherCalendar ''hebrew'', day = 10\<rparr>,
                           time = Some 32400000\<rparr>,
                 end' = ofCalendarDate (greg 12)\<rparr>)"
proof -
  let ?p = "exampleProps (Some 1) (Some 31) (Some [15]) False False"
  let ?cal = "month [15]"
  let ?s = "initialState (Some timedValue) ?cal"
  have ro: "\<not> isReadOnly ?p" by (simp add: exampleProps_def)
  have s0: "anchorDate ?s = None" "availableRange ?s = None" by (simp_all add: initialState_def)
  have bounds: "\<not> isInvalid (ofCalendarDate (greg 12)) (minValue ?p) (maxValue ?p)"
    "\<not> isInvalid (ofCalendarDate (greg 10)) (minValue ?p) (maxValue ?p)"
    by (simp_all add: isInvalid_ofCalendarDate exampleProps_def greg_def)
  have avail: "\<not> marksUnavailable ?p (ofCalendarDate (greg 12))"
    "\<not> marksUnavailable ?p (ofCalendarDate (greg 10))"
    by (simp_all add: marksUnavailable_def exampleProps_def greg_def)
  have window: "isDateUnavailable ?p \<noteq> None \<longrightarrow>
                   compareDate (greg 12) (start (visibleRange ?cal)) \<ge> 0 \<and>
                   compareDate (greg 10) (start (visibleRange ?cal)) \<ge> 0"
    by (simp add: compareDate_def month_def greg_def)
  have between: "isDateUnavailable ?p \<noteq> None \<and> \<not> allowsNonContiguousRanges ?p \<longrightarrow>
       (\<forall>k. (0 < k \<and> k \<le> day (greg 10) - day (greg 12)) \<or>
            (day (greg 10) - day (greg 12) \<le> k \<and> k < 0) \<longrightarrow>
            \<not> isCellUnavailable ?cal (add_days (greg 12) k))"
    by (auto simp: month_def greg_def add_days_def)
  from two_picks_commit[OF ro s0 bounds avail window between]
  obtain s2 where "andThen (selectDate ?p ?cal (greg 12) ?s) (selectDate ?p ?cal (greg 10)) = Inr s2"
    "anchorDate s2 = None" "availableRange s2 = None"
    "value' s2 = Some (emitted (normalized (greg 12) (greg 10)) (value' ?s))"
    by blast
  moreover have "emitted (normalized (greg 12) (greg 10)) (value' ?s) =
      \<lparr>start = \<lparr>date = \<lparr>calendar = OtherCalendar ''hebrew'', day = 10\<rparr>, time = Some 32400000\<rparr>,
       end' = ofCalendarDate (greg 12)\<rparr>"
    by (simp add: emitted_def normalized_def convertValue_eq initialState_def timedValue_def
          greg_def ofCalendarDate_def)
  ultimately show ?thesis using ro by auto
qed


section \<open>C9: the same date picked twice\<close>

text \<open>
  Claim C9 fails as it is stated in two cases the code sets apart by design: a read-only
  state ignores both picks, and with a predicate supplied a date before the start of the
  visible range is dropped by both picks although it is in bounds and available. In both
  cases nothing is committed.
\<close>

theorem same_date_twice_counterexample:
  "\<not> isInvalid (ofCalendarDate (greg 10))
       (minValue (exampleProps None None None False True))
       (maxValue (exampleProps None None None False True)) \<and>
   \<not> marksUnavailable (exampleProps None None None False True) (ofCalendarDate (greg 10)) \<and>
   isReadOnly (exampleProps None None None False True) \<and>
   andThen
     (selectDate (exampleProps None None None False True) (month []) (greg 10)
        (initialState None (month [])))
     (selectDate (exampleProps None None None False True) (month []) (greg 10)) =
     Inr (initialState None (month [])) \<and>
   value' (initialState None (month [])) = None \<and>
   \<not> isInvalid (ofCalendarDate (greg 0)) (minValue scenarioB) (maxValue scenarioB) \<and>
   \<not> marksUnavailable scenarioB (ofCalendarDate (greg 0)) \<and>
   \<not> isReadOnly scenarioB \<and>
   andThen (selectDate scenarioB (month [15]) (greg 0) (initialState None (month [15])))
     (selectDate scenarioB (month [15]) (greg 0)) =
     Inr (initialState None (month [15])) \<and>
   value' (initialState None (month [15])) = None"
proof -
  have inputs:
    "\<not> isInvalid (ofCalendarDate (greg 10))
       (minValue (exampleProps None None None False True))
       (maxValue (exampleProps None None None False True))"
    "\<not> marksUnavailable (exampleProps None None None False True) (ofCalendarDate (greg 10))"
    "isReadOnly (exampleProps None None None False True)"
    "value' (initialState None (month [])) = None"
    "\<not> isInvalid (ofCalendarDate (greg 0)) (minValue scenarioB) (maxValue scenarioB)"
    "\<not> marksUnavailable scenarioB (ofCalendarDate (greg 0))"
    "\<not> isReadOnly scenarioB"
    "value' (initialState None (month [15])) = None"
    by (simp_all add: scenarioB_def exampleProps_def isInvalid_def marksUnavailable_def
          initialState_def greg_def)
  have read_only:
    "andThen
       (selectDate (exampleProps None None None False True) (month []) (greg 10)
          (initialState None (month [])))
       (selectDate (exampleProps None None None False True) (month []) (greg 10)) =
     Inr (initialState None (month []))"
    by (simp add: selectDate_def andThen_def exampleProps_def)
  have before_window:
    "andThen (selectDate scenarioB (month [15]) (greg 0) (initialState None (month [15])))
       (selectDate scenarioB (month [15]) (greg 0)) =
     Inr (initialState None (month [15]))"
    by code_simp
  from inputs read_only before_window show ?thesis by simp
qed

text \<open>
  Claim C9, amended. From a state that is not read-only and has no anchor (hence no available
  range), for a date \<open>d\<close> that is in bounds and available and, when a predicate is supplied,
  not before the start of the visible range, \<^verbatim>\<open>selectDate(d); selectDate(d)\<close> returns, clears
  the anchor and commits the single-day range: \<^verbatim>\<open>makeRange\<close> of equal endpoints swaps nothing
  and yields \<open>start = end = d\<close>, both emitted endpoints are on the day of \<open>d\<close>, and with no
  prior value and a Gregorian \<open>d\<close> the committed value is exactly \<open>{start: d, end: d}\<close>.
\<close>

theorem same_date_twice:
  assumes ro: "\<not> isReadOnly props"
    and s0: "anchorDate s = None" "availableRange s = None"
    and bounds: "\<not> isInvalid (ofCalendarDate d) (minValue props) (maxValue props)"
    and avail: "\<not> marksUnavailable props (ofCalendarDate d)"
    and window: "isDateUnavailable props \<noteq> None \<longrightarrow>
                   compareDate d (start (visibleRange cal)) \<ge> 0"
  shows "(\<exists>s2. andThen (selectDate props cal d s) (selectDate props cal d) = Inr s2 \<and>
               anchorDate s2 = None \<and> availableRange s2 = None \<and> availableRangeRef s2 = None \<and>
               value' s2 = Some (emitted \<lparr>start = d, end' = d\<rparr> (value' s))) \<and>
         (\<exists>s2. run props [(cal, SelectDate d), (cal, SelectDate d)] s = Inr s2 \<and>
               anchorDate s2 = None \<and> availableRange s2 = None \<and> availableRangeRef s2 = None \<and>
               value' s2 = Some (emitted \<lparr>start = d, end' = d\<rparr> (value' s))) \<and>
         makeRange (Some (ofCalendarDate d)) (Some (ofCalendarDate d)) =
           Some \<lparr>start = d, end' = d\<rparr> \<and>
         day (date (start (emitted \<lparr>start = d, end' = d\<rparr> (value' s)))) = day d \<and>
         day (date (end' (emitted \<lparr>start = d, end' = d\<rparr> (value' s)))) = day d \<and>
         (value' s = None \<and> calendar d = GregorianCalendar \<longrightarrow>
            emitted \<lparr>start = d, end' = d\<rparr> (value' s) =
              \<lparr>start = ofCalendarDate d, end' = ofCalendarDate d\<rparr>)"
proof -
  have nd: "normalized d d = \<lparr>start = d, end' = d\<rparr>" by (simp add: normalized_def)
  from window have w2: "isDateUnavailable props \<noteq> None \<longrightarrow>
      compareDate d (start (visibleRange cal)) \<ge> 0 \<and> compareDate d (start (visibleRange cal)) \<ge> 0"
    by simp
  have btw: "isDateUnavailable props \<noteq> None \<and> \<not> allowsNonContiguousRanges props \<longrightarrow>
       (\<forall>k. (0 < k \<and> k \<le> day d - day d) \<or> (day d - day d \<le> k \<and> k < 0) \<longrightarrow>
            \<not> isCellUnavailable cal (add_days d k))"
    by auto
  from two_picks_direct[OF ro s0 bounds bounds avail avail w2 btw]
  have direct: "\<exists>s2. andThen (selectDate props cal d s) (selectDate props cal d) = Inr s2 \<and>
               anchorDate s2 = None \<and> availableRange s2 = None \<and> availableRangeRef s2 = None \<and>
               value' s2 = Some (emitted \<lparr>start = d, end' = d\<rparr> (value' s))"
    by (auto simp: andThen_def nd)
  from two_picks_events[OF ro s0 bounds bounds avail avail w2 btw]
  have events: "\<exists>s2. run props [(cal, SelectDate d), (cal, SelectDate d)] s = Inr s2 \<and>
               anchorDate s2 = None \<and> availableRange s2 = None \<and> availableRangeRef s2 = None \<and>
               value' s2 = Some (emitted \<lparr>start = d, end' = d\<rparr> (value' s))"
    by (simp add: nd)
  have mk: "makeRange (Some (ofCalendarDate d)) (Some (ofCalendarDate d)) =
           Some \<lparr>start = d, end' = d\<rparr>"
    by (simp add: makeRange_pure)
  have days: "day (date (start (emitted \<lparr>start = d, end' = d\<rparr> (value' s)))) = day d"
    "day (date (end' (emitted \<lparr>start = d, end' = d\<rparr> (value' s)))) = day d"
    by (simp_all add: emitted_def convertValue_eq)
  have plain: "value' s = None \<and> calendar d = GregorianCalendar \<longrightarrow>
            emitted \<lparr>start = d, end' = d\<rparr> (value' s) =
              \<lparr>start = ofCalendarDate d, end' = ofCalendarDate d\<rparr>"
    by (auto simp: emitted_def convertValue_eq ofCalendarDate_def intro!: CalendarDate.equality)
  from direct events mk days plain show ?thesis by blast
qed

theorem same_date_twice_witness:
  "\<not> isReadOnly (exampleProps (Some 1) (Some 31) (Some [15]) False False) \<and>
   (\<exists>s2. andThen
           (selectDate (exampleProps (Some 1) (Some 31) (Some [15]) False False) (month [15])
              (greg 10) (initialState None (month [15])))
           (selectDate (exampleProps (Some 1) (Some 31) (Some [15]) False False) (month [15])
              (greg 10)) = Inr s2 \<and>
         anchorDate s2 = None \<and> availableRange s2 = None \<and>
         value' s2 = Some (dayRange 10 10))"
proof -
  let ?p = "exampleProps (Some 1) (Some 31) (Some [15]) False False"
  let ?cal = "month [15]"
  let ?s = "initialState None ?cal"
  have ro: "\<not> isReadOnly ?p" by (simp add: exampleProps_def)
  have s0: "anchorDate ?s = None" "availableRange ?s = None" by (simp_all add: initialState_def)
  have bounds: "\<not> isInvalid (ofCalendarDate (greg 10)) (minValue ?p) (maxValue ?p)"
    by (simp add: isInvalid_ofCalendarDate exampleProps_def greg_def)
  have avail: "\<not> marksUnavailable ?p (ofCalendarDate (greg 10))"
    by (simp add: marksUnavailable_def exampleProps_def greg_def)
  have window: "isDateUnavailable ?p \<noteq> None \<longrightarrow>
                   compareDate (greg 10) (start (visibleRange ?cal)) \<ge> 0"
    by (simp add: compareDate_def month_def greg_def)
  have plain: "value' ?s = None \<and> calendar (greg 10) = GregorianCalendar"
    by (simp add: initialState_def greg_def)
  from same_date_twice[OF ro s0 bounds avail window] plain
  obtain s2 where "andThen (selectDate ?p ?cal (greg 10) ?s) (selectDate ?p ?cal (greg 10)) = Inr s2"
    "anchorDate s2 = None" "availableRange s2 = None"
    "value' s2 = Some \<lparr>start = ofCalendarDate (greg 10), end' = ofCalendarDate (greg 10)\<rparr>"
    by auto
  with ro show ?thesis by (auto simp: dayRange_def)
qed


section \<open>The clamp, by day\<close>





















section \<open>C4: clamping into the effective bounds\<close>





section \<open>The invalid check after the ref is cleared\<close>

lemma state_isInvalid_renderedGrid:
  "state_isInvalid (renderedGrid props r grid) s x \<longleftrightarrow>
     isInvalid (ofCalendarDate x) (min_effective props r) (max_effective props r) \<or>
     isInvalid (ofCalendarDate x)
       (case availableRangeRef s of None \<Rightarrow> None | Some rg \<Rightarrow> map_option ofCalendarDate (start rg))
       (case availableRangeRef s of None \<Rightarrow> None | Some rg \<Rightarrow> map_option ofCalendarDate (end' rg))"
  by (simp add: state_isInvalid_def renderedGrid_def)

lemma state_isInvalid_no_ref:
  "availableRangeRef s = None \<Longrightarrow> state_isInvalid cal s x = calendar_isInvalid cal x"
  by (simp add: state_isInvalid_def isInvalid_def)

lemma cleared_facts:
  assumes "availableRange s' = None" "availableRangeRef s' = None"
  shows "(\<forall>x. state_isInvalid cal s' x = calendar_isInvalid cal x) \<and>
         (\<forall>x. state_isInvalid (renderedGrid props s cal) s' x =
               isInvalid (ofCalendarDate x) (min_effective props s) (max_effective props s)) \<and>
         (\<forall>x. state_isInvalid (renderedGrid props s' cal) s' x =
               isInvalid (ofCalendarDate x) (minValue props) (maxValue props))"
  using assms
  by (simp add: state_isInvalid_no_ref renderedGrid_def effective_bounds_no_range)


section \<open>C10: the stored available range\<close>

text \<open>
  Claim C10 fails as it is stated in two respects. First, the available range is recomputed
  only when the anchor or the visible range changes (lines 98 to 113): when the caller allows
  non-contiguous ranges while an anchor is active, the next render keeps the stored range,
  which is then present although non-contiguous ranges are allowed. Second, a commit clears
  the ref at once, but \<^verbatim>\<open>isInvalid\<close> also asks the grid, and the grid of the render that
  served the pick was given the old effective bounds (lines 71 to 83): right after the commit
  of days 10 to 14 it still flags day 20, beyond the old obstruction.
\<close>

theorem availableRange_counterexample:
  "availableRange_inv scenarioB scenarioB_anchored \<and>
   render nonContiguousB (month [15]) scenarioB_anchored = Inr scenarioB_anchored \<and>
   availableRange scenarioB_anchored \<noteq> None \<and> availableRangeRef scenarioB_anchored \<noteq> None \<and>
   allowsNonContiguousRanges nonContiguousB \<and>
   \<not> availableRange_inv nonContiguousB scenarioB_anchored \<and>
   selectDate scenarioB (renderedGrid scenarioB scenarioB_anchored (month [15])) (greg 20)
     scenarioB_anchored = Inr (initialState (Some (dayRange 10 14)) (month [15])) \<and>
   availableRangeRef (initialState (Some (dayRange 10 14)) (month [15])) = None \<and>
   state_isInvalid (renderedGrid scenarioB scenarioB_anchored (month [15]))
     (initialState (Some (dayRange 10 14)) (month [15])) (greg 20)"
proof -
  have kept: "render nonContiguousB (month [15]) scenarioB_anchored = Inr scenarioB_anchored"
    by code_simp
  have inv: "availableRange_inv scenarioB scenarioB_anchored"
    "availableRange scenarioB_anchored \<noteq> None" "availableRangeRef scenarioB_anchored \<noteq> None"
    "allowsNonContiguousRanges nonContiguousB"
    "\<not> availableRange_inv nonContiguousB scenarioB_anchored"
    "availableRangeRef (initialState (Some (dayRange 10 14)) (month [15])) = None"
    by (simp_all add: availableRange_inv_def scenarioB_def nonContiguousB_def
          scenarioB_anchored_def exampleProps_def initialState_def)
  have commit:
    "selectDate scenarioB (renderedGrid scenarioB scenarioB_anchored (month [15])) (greg 20)
       scenarioB_anchored = Inr (initialState (Some (dayRange 10 14)) (month [15]))"
    by code_simp
  have still:
    "state_isInvalid (renderedGrid scenarioB scenarioB_anchored (month [15]))
       (initialState (Some (dayRange 10 14)) (month [15])) (greg 20)"
    by code_simp
  from kept inv commit still show ?thesis by simp
qed

text \<open>
  Claim C10, amended. For options that stay fixed, the invariant \<open>availableRange_inv\<close>, that
  the available range, as state and as the ref that \<^verbatim>\<open>isInvalid\<close> consults, is absent
  unless an anchor is set, a predicate is supplied and non-contiguous ranges are not allowed,
  holds initially, and the render, every handler, every event and every run of events return
  and preserve it; under it a state with no anchor has no available range. A cancellation
  \<^verbatim>\<open>setAnchorDate(null)\<close> and a commit by \<^verbatim>\<open>selectDate\<close> clear the anchor, the available
  range and the ref at once, so that the ref adds nothing to \<^verbatim>\<open>isInvalid\<close>, which is then
  the grid's own check: with the grid of the render that served the pick it flags the dates
  outside the old effective bounds, and with the grid of the next render the dates outside
  the caller's minimum and maximum only.
\<close>

theorem availableRange_invariant:
  "availableRange_inv props (initialState v cal0) \<and>
   (availableRange_inv props s \<longrightarrow>
      (\<exists>s'. render props cal s = Inr s' \<and> availableRange_inv props s') \<and>
      (\<exists>s'. handle props cal ev s = Inr s' \<and> availableRange_inv props s') \<and>
      (\<exists>s'. step props cal ev s = Inr s' \<and> availableRange_inv props s') \<and>
      (\<exists>s'. run props evs s = Inr s' \<and> availableRange_inv props s') \<and>
      (anchorDate s = None \<longrightarrow>
         availableRange s = None \<and> availableRangeRef s = None \<and>
         (\<forall>x. state_isInvalid cal s x = calendar_isInvalid cal x) \<and>
         (\<forall>x. state_isInvalid (renderedGrid props s cal) s x =
               isInvalid (ofCalendarDate x) (minValue props) (maxValue props)))) \<and>
   (\<exists>s'. setAnchorDate props cal None s = Inr s' \<and> anchorDate s' = None \<and>
         availableRange s' = None \<and> availableRangeRef s' = None \<and>
         (\<forall>x. state_isInvalid cal s' x = calendar_isInvalid cal x) \<and>
         (\<forall>x. state_isInvalid (renderedGrid props s cal) s' x =
               isInvalid (ofCalendarDate x) (min_effective props s) (max_effective props s)) \<and>
         (\<forall>x. state_isInvalid (renderedGrid props s' cal) s' x =
               isInvalid (ofCalendarDate x) (minValue props) (maxValue props))) \<and>
   (\<not> isReadOnly props \<and> anchorDate s = Some a \<and>
    previousAvailableDate (constrainValue d (min_effective props s) (max_effective props s))
      (start (visibleRange cal)) (isDateUnavailable props) = Some d2 \<longrightarrow>
    (\<exists>s'. selectDate props cal d s = Inr s' \<and> value' s' \<noteq> None \<and> anchorDate s' = None \<and>
          availableRange s' = None \<and> availableRangeRef s' = None \<and>
          (\<forall>x. state_isInvalid cal s' x = calendar_isInvalid cal x) \<and>
          (\<forall>x. state_isInvalid (renderedGrid props s cal) s' x =
                isInvalid (ofCalendarDate x) (min_effective props s) (max_effective props s)) \<and>
          (\<forall>x. state_isInvalid (renderedGrid props s' cal) s' x =
                isInvalid (ofCalendarDate x) (minValue props) (maxValue props))))"
proof (intro conjI impI)
  show "availableRange_inv props (initialState v cal0)" by (rule initialState_inv)
next
  assume "availableRange_inv props s"
  then show "\<exists>s'. render props cal s = Inr s' \<and> availableRange_inv props s'"
    using render_inv[of props s cal] by blast
next
  assume "availableRange_inv props s"
  then show "\<exists>s'. handle props cal ev s = Inr s' \<and> availableRange_inv props s'"
    by (rule handle_inv)
next
  assume "availableRange_inv props s"
  then show "\<exists>s'. step props cal ev s = Inr s' \<and> availableRange_inv props s'"
    by (rule step_inv)
next
  assume "availableRange_inv props s"
  then show "\<exists>s'. run props evs s = Inr s' \<and> availableRange_inv props s'"
    by (rule run_inv)
next
  assume "availableRange_inv props s" "anchorDate s = None"
  then have none: "availableRange s = None" "availableRangeRef s = None"
    using inv_no_anchor[of props s cal] by blast+
  from none show "availableRange s = None" "availableRangeRef s = None" .
  from cleared_facts[OF none, of cal props s]
  show "\<forall>x. state_isInvalid cal s x = calendar_isInvalid cal x"
    "\<forall>x. state_isInvalid (renderedGrid props s cal) s x =
               isInvalid (ofCalendarDate x) (minValue props) (maxValue props)"
    by blast+
next
  let ?s' = "s\<lparr>anchorDate := None, availableRangeRef := None, availableRange := None\<rparr>"
  have "setAnchorDate props cal None s = Inr ?s'" by (rule setAnchorDate_None)
  moreover have "availableRange ?s' = None" "availableRangeRef ?s' = None" by simp_all
  note cleared_facts[OF this, of cal props s]
  ultimately show "\<exists>s'. setAnchorDate props cal None s = Inr s' \<and> anchorDate s' = None \<and>
         availableRange s' = None \<and> availableRangeRef s' = None \<and>
         (\<forall>x. state_isInvalid cal s' x = calendar_isInvalid cal x) \<and>
         (\<forall>x. state_isInvalid (renderedGrid props s cal) s' x =
               isInvalid (ofCalendarDate x) (min_effective props s) (max_effective props s)) \<and>
         (\<forall>x. state_isInvalid (renderedGrid props s' cal) s' x =
               isInvalid (ofCalendarDate x) (minValue props) (maxValue props))"
    by (intro exI[of _ ?s']) simp
next
  assume h: "\<not> isReadOnly props \<and> anchorDate s = Some a \<and>
    previousAvailableDate (constrainValue d (min_effective props s) (max_effective props s))
      (start (visibleRange cal)) (isDateUnavailable props) = Some d2"
  let ?s' = "committed a d2 s"
  from h have "selectDate props cal d s = Inr ?s'"
    by (simp add: selectDate_commit committed_def)
  moreover have "availableRange ?s' = None" "availableRangeRef ?s' = None"
    by (simp_all add: committed_def)
  note cleared_facts[OF this, of cal props s]
  moreover have "value' ?s' \<noteq> None" "anchorDate ?s' = None" "availableRange ?s' = None"
    "availableRangeRef ?s' = None"
    by (simp_all add: committed_def)
  ultimately show "\<exists>s'. selectDate props cal d s = Inr s' \<and> value' s' \<noteq> None \<and>
          anchorDate s' = None \<and> availableRange s' = None \<and> availableRangeRef s' = None \<and>
          (\<forall>x. state_isInvalid cal s' x = calendar_isInvalid cal x) \<and>
          (\<forall>x. state_isInvalid (renderedGrid props s cal) s' x =
                isInvalid (ofCalendarDate x) (min_effective props s) (max_effective props s)) \<and>
          (\<forall>x. state_isInvalid (renderedGrid props s' cal) s' x =
                isInvalid (ofCalendarDate x) (minValue props) (maxValue props))"
    by (intro exI[of _ ?s']) simp
qed


theorem availableRange_invariant_witness:
  "availableRange_inv scenarioB scenarioB_anchored \<and>
   \<not> isReadOnly scenarioB \<and> anchorDate scenarioB_anchored = Some (greg 10) \<and>
   previousAvailableDate
     (constrainValue (greg 20) (min_effective scenarioB scenarioB_anchored)
        (max_effective scenarioB scenarioB_anchored))
     (start (visibleRange (month [15]))) (isDateUnavailable scenarioB) = Some (greg 14) \<and>
   state_isInvalid (renderedGrid scenarioB scenarioB_anchored (month [15])) scenarioB_anchored
     (greg 20) \<and>
   (\<exists>s'. selectDate scenarioB (month [15]) (greg 20) scenarioB_anchored = Inr s' \<and>
         value' s' = Some (dayRange 10 14) \<and> anchorDate s' = None \<and>
         availableRange s' = None \<and> availableRangeRef s' = None \<and>
         state_isInvalid (renderedGrid scenarioB scenarioB_anchored (month [15])) s' (greg 20) \<and>
         \<not> state_isInvalid (renderedGrid scenarioB s' (month [15])) s' (greg 20)) \<and>
   (\<exists>s'. step scenarioB (month [15]) (SelectDate (greg 20)) scenarioB_anchored = Inr s' \<and>
         availableRange_inv scenarioB s')"
proof -
  let ?cal = "month [15]"
  have inv: "availableRange_inv scenarioB scenarioB_anchored"
    by (simp add: availableRange_inv_def scenarioB_def scenarioB_anchored_def exampleProps_def)
  have before: "state_isInvalid (renderedGrid scenarioB scenarioB_anchored ?cal)
      scenarioB_anchored (greg 20)"
    by code_simp
  have old_bounds: "isInvalid (ofCalendarDate (greg 20)) (min_effective scenarioB scenarioB_anchored)
      (max_effective scenarioB scenarioB_anchored)"
    by code_simp
  have caller_bounds:
    "\<not> isInvalid (ofCalendarDate (greg 20)) (minValue scenarioB) (maxValue scenarioB)"
    by (simp add: isInvalid_def scenarioB_def exampleProps_def)
  have h: "\<not> isReadOnly scenarioB \<and> anchorDate scenarioB_anchored = Some (greg 10) \<and>
    previousAvailableDate
     (constrainValue (greg 20) (min_effective scenarioB scenarioB_anchored)
        (max_effective scenarioB scenarioB_anchored))
     (start (visibleRange ?cal)) (isDateUnavailable scenarioB) = Some (greg 14)"
    by (simp add: scenarioB_def scenarioB_anchored_def exampleProps_def month_def greg_def
          constrainValue_def min_effective_def max_effective_def maxDate_def minDate_def
          previousAvailableDate_def previousAvailableDate_loop.simps compareDate_def
          ofCalendarDate_def toCalendarDate_def)
  note inst = availableRange_invariant[where props = scenarioB and s = scenarioB_anchored
      and cal = ?cal and ev = "SelectDate (greg 20)" and a = "greg 10" and d = "greg 20"
      and ?d2.0 = "greg 14" and v = None and ?cal0.0 = ?cal and evs = "[]"]
  from inst h obtain s' where sel: "selectDate scenarioB ?cal (greg 20) scenarioB_anchored = Inr s'"
    and cleared: "anchorDate s' = None" "availableRange s' = None" "availableRangeRef s' = None"
    and served: "\<forall>x. state_isInvalid (renderedGrid scenarioB scenarioB_anchored ?cal) s' x =
        isInvalid (ofCalendarDate x) (min_effective scenarioB scenarioB_anchored)
          (max_effective scenarioB scenarioB_anchored)"
    and nxt: "\<forall>x. state_isInvalid (renderedGrid scenarioB s' ?cal) s' x =
        isInvalid (ofCalendarDate x) (minValue scenarioB) (maxValue scenarioB)"
    by blast
  from sel h have "value' s' = Some (dayRange 10 14)"
    by (auto simp: selectDate_commit scenarioB_anchored_def dayRange_def convertValue_eq
          greg_def ofCalendarDate_def)
  moreover from served old_bounds
  have "state_isInvalid (renderedGrid scenarioB scenarioB_anchored ?cal) s' (greg 20)" by simp
  moreover from nxt caller_bounds
  have "\<not> state_isInvalid (renderedGrid scenarioB s' ?cal) s' (greg 20)" by simp
  moreover from inst inv
  have "\<exists>s'. step scenarioB ?cal (SelectDate (greg 20)) scenarioB_anchored = Inr s' \<and>
         availableRange_inv scenarioB s'"
    by blast
  ultimately show ?thesis using inv before h sel cleared by blast
qed


end
